theory Spec2Isabelle
  imports Main "HOL-Library.AList" "HOL-Library.List_Lexorder"
begin

section \<open>Strings, bytes and exceptions\<close>

text \<open>
  A Python \<open>str\<close> is a sequence of Unicode code points, so it is modelled as a list of
  naturals (\<open>pystr\<close>); \<open>ascii\<close> reads a literal. \<open>bytes\<close> are lists of naturals too.
\<close>

type_synonym pystr = "nat list"
type_synonym bytes = "nat list"

definition ascii :: "string \<Rightarrow> pystr" where
  "ascii s = map of_char s"

text \<open>
  \<open>str.strip()\<close> with no argument removes the leading and trailing characters for which
  \<open>str.isspace\<close> holds. The set is CPython's: U+0009..U+000D, U+001C..U+0020, U+0085,
  U+00A0, U+1680, U+2000..U+200A, U+2028, U+2029, U+202F, U+205F and U+3000.
\<close>

definition isspace :: "nat \<Rightarrow> bool" where
  "isspace c \<longleftrightarrow>
     (9 \<le> c \<and> c \<le> 13) \<or> (28 \<le> c \<and> c \<le> 32) \<or> c = 133 \<or> c = 160 \<or> c = 5760 \<or>
     (8192 \<le> c \<and> c \<le> 8202) \<or> c = 8232 \<or> c = 8233 \<or> c = 8239 \<or> c = 8287 \<or> c = 12288"

definition strip :: "pystr \<Rightarrow> pystr" where
  "strip s = rev (dropWhile isspace (rev (dropWhile isspace s)))"

text \<open>\<open>str(n)\<close> for a non-negative integer, as the f-strings of the source print it.\<close>

function str_nat :: "nat \<Rightarrow> pystr" where
  "str_nat n = (if n < 10 then [48 + n] else str_nat (n div 10) @ [48 + n mod 10])"
  by pat_completeness auto
termination
  by (relation "measure (\<lambda>n. n)") auto

declare str_nat.simps [simp del]

text \<open>
  Exceptions carry their class and their message (\<open>str(exc)\<close>). Every class below is a
  subclass of \<open>Exception\<close>; \<open>OSError\<close> stands for itself and its subclasses
  (\<open>FileNotFoundError\<close>, \<open>FileExistsError\<close>, \<open>IsADirectoryError\<close>, \<open>PermissionError\<close>),
  \<open>ValueError\<close> for itself and its subclass \<open>UnicodeEncodeError\<close>. Signals that are not
  \<open>Exception\<close>s (\<open>KeyboardInterrupt\<close>, \<open>SystemExit\<close>) are outside the model.

  The functions below that change an object in place (the document, a table, the file
  system) return the exception they raise, if any, together with the state they leave:
  \<open>None\<close> is a normal return. Functions that change nothing when they raise return the
  exception or the result.
\<close>

datatype exn_class = AttributeError | IndexError | ValueError | OSError | OtherException

datatype exn = Exn (cls: exn_class) (msg: pystr)

section \<open>The output document (python-docx)\<close>

text \<open>
  The document under construction is the ordered list of its block-level elements. A
  paragraph block and a table cell keep the text given to them; a table keeps its cells
  as python-docx does, in one row-major list: \<open>Table.cell(r, c)\<close> is
  \<open>self._cells[c + r * self._column_count]\<close>, and raises \<open>IndexError\<close> past the end of that
  list. A picture block keeps the image bytes and the display width in EMU.
\<close>

record docx_table =
  nrows :: nat
  ncols :: nat
  cells :: "pystr list"

datatype block = Paragraph pystr | Table docx_table | Picture bytes nat

type_synonym document = "block list"

text \<open>
  python-docx hands the text of a run to \<open>lxml\<close>, which first encodes it as UTF-8 and then
  accepts only the characters XML can carry: tab, line feed, carriage return, and every
  code point from U+0020 on except the surrogates, U+FFFE and U+FFFF. A surrogate fails
  the encoding (\<open>UnicodeEncodeError\<close>, on the first run of surrogates); any other
  character outside the set is a \<open>ValueError\<close>.
\<close>

definition is_surrogate :: "nat \<Rightarrow> bool" where
  "is_surrogate c \<longleftrightarrow> 55296 \<le> c \<and> c \<le> 57343"

definition xml_char :: "nat \<Rightarrow> bool" where
  "xml_char c \<longleftrightarrow>
     c = 9 \<or> c = 10 \<or> c = 13 \<or> (32 \<le> c \<and> \<not> is_surrogate c \<and> c \<noteq> 65534 \<and> c \<noteq> 65535)"

definition hex_digit :: "nat \<Rightarrow> nat" where
  "hex_digit d = (if d < 10 then 48 + d else 87 + d)"

text \<open>
  \<open>str(exc)\<close> of the \<open>UnicodeEncodeError\<close>: one surrogate is printed as \<open>'\udc80'\<close> with its
  position, a longer run as the range of its positions.
\<close>

definition encode_error :: "pystr \<Rightarrow> exn" where
  "encode_error s =
     (let start = length (takeWhile (\<lambda>c. \<not> is_surrogate c) s);
          stop = start + length (takeWhile is_surrogate (drop start s));
          bad = s ! start
      in Exn ValueError
           ([39] @ ascii ''utf-8'' @ [39] @ ascii '' codec can'' @ [39] @ ascii ''t encode '' @
            (if stop = start + 1
             then ascii ''character '' @ [39, 92, 117] @
                  map hex_digit [bad div 4096 mod 16, bad div 256 mod 16, bad div 16 mod 16,
                                 bad mod 16] @
                  [39] @ ascii '' in position '' @ str_nat start
             else ascii ''characters in position '' @ str_nat start @ ascii ''-'' @
                  str_nat (stop - 1)) @
            ascii '': surrogates not allowed''))"

definition xml_error :: "pystr \<Rightarrow> exn" where
  "xml_error s =
     (if list_ex is_surrogate s then encode_error s
      else Exn ValueError
             (ascii ''All strings must be XML compatible: Unicode or ASCII, no NULL bytes or control characters''))"

text \<open>
  Setting the text of a run (\<open>run.text = s\<close>): python-docx turns a tab into a tab element
  and a line feed or a carriage return into a line break, and writes the characters
  between them as one text element each, in order. The first piece that \<open>lxml\<close> refuses
  raises, and the run keeps what was written before that piece. The result is the
  exception, if any, and the text the run holds afterwards.
\<close>

definition is_break :: "nat \<Rightarrow> bool" where
  "is_break c \<longleftrightarrow> c = 9 \<or> c = 10 \<or> c = 13"

definition set_run_text :: "pystr \<Rightarrow> exn option \<times> pystr" where
  "set_run_text s =
     (if list_all xml_char s then (None, s)
      else
        (let kept = rev (dropWhile (\<lambda>c. \<not> is_break c) (rev (takeWhile xml_char s)));
             piece = takeWhile (\<lambda>c. \<not> is_break c) (drop (length kept) s)
         in (Some (xml_error piece), kept)))"

text \<open>
  \<open>doc.add_paragraph(text)\<close> appends an empty paragraph and then sets the text of its run:
  when that raises, the paragraph stays in the document.
\<close>

definition add_paragraph :: "pystr \<Rightarrow> document \<Rightarrow> exn option \<times> document" where
  "add_paragraph text doc =
     (case set_run_text text of (x, written) \<Rightarrow> (x, doc @ [Paragraph written]))"

text \<open>\<open>doc.add_table(rows, cols)\<close> makes a grid of empty cells.\<close>

definition add_table :: "nat \<Rightarrow> nat \<Rightarrow> docx_table" where
  "add_table rows cols = \<lparr>nrows = rows, ncols = cols, cells = replicate (rows * cols) []\<rparr>"

text \<open>
  \<open>table.cell(r, c).text = s\<close>: the cell is looked up, emptied, and the text of its new run
  is set.
\<close>

definition set_cell_text :: "docx_table \<Rightarrow> nat \<Rightarrow> nat \<Rightarrow> pystr \<Rightarrow> exn option \<times> docx_table" where
  "set_cell_text t r c s =
     (let i = c + r * ncols t
      in if i < length (cells t)
         then (case set_run_text s of (x, written) \<Rightarrow> (x, t\<lparr>cells := (cells t)[i := written]\<rparr>))
         else (Some (Exn IndexError (ascii ''list index out of range'')), t))"

definition cell_at :: "docx_table \<Rightarrow> nat \<Rightarrow> nat \<Rightarrow> pystr" where
  "cell_at t r c = cells t ! (c + r * ncols t)"

section \<open>The source document (PyMuPDF)\<close>

text \<open>
  The parser is an external collaborator: a page is what its calls return, each the
  result or the exception raised. \<open>get_text\<close> is \<open>page.get_text("text")\<close>; \<open>find_tables\<close> is
  \<open>page.find_tables()\<close> with its \<open>.tables\<close>, each entry given by what its \<open>table.extract()\<close>
  returns (a list of rows, a cell being a string or \<open>None\<close>); \<open>get_images\<close> lists the \<open>xref\<close>
  of each entry of \<open>page.get_images(full=True)\<close>; \<open>extract_image x\<close> is
  \<open>page.parent.extract_image(x)["image"]\<close>. A page that cannot be loaded is one whose
  first call raises.
\<close>

type_synonym table_data = "pystr option list list"

record page =
  get_text :: "exn + pystr"
  find_tables :: "exn + (exn + table_data) list"
  get_images :: "exn + nat list"
  extract_image :: "nat \<Rightarrow> exn + bytes"

section \<open>Table Extractor: \<open>extract_tables\<close>\<close>

text \<open>\<open>(cell or "").strip()\<close>\<close>

definition cell_text :: "pystr option \<Rightarrow> pystr" where
  "cell_text cell = strip (case cell of None \<Rightarrow> [] | Some s \<Rightarrow> s)"

text \<open>
  The two nested \<open>enumerate\<close> loops. \<open>fill_row t r c row\<close> writes the cells of \<open>row\<close> from
  column \<open>c\<close> on; \<open>fill_rows t r rows\<close> writes the rows from row \<open>r\<close> on. An exception leaves
  the loops and the function, with the table as far as it was filled.
\<close>

fun fill_row :: "docx_table \<Rightarrow> nat \<Rightarrow> nat \<Rightarrow> pystr option list \<Rightarrow> exn option \<times> docx_table" where
  "fill_row t r c [] = (None, t)"
| "fill_row t r c (cell # rest) =
     (case set_cell_text t r c (cell_text cell) of
        (Some x, t') \<Rightarrow> (Some x, t')
      | (None, t') \<Rightarrow> fill_row t' r (Suc c) rest)"

fun fill_rows :: "docx_table \<Rightarrow> nat \<Rightarrow> table_data \<Rightarrow> exn option \<times> docx_table" where
  "fill_rows t r [] = (None, t)"
| "fill_rows t r (row # rows) =
     (case fill_row t r 0 row of
        (Some x, t') \<Rightarrow> (Some x, t')
      | (None, t') \<Rightarrow> fill_rows t' (Suc r) rows)"

text \<open>
  The body of \<open>for table in tables.tables\<close> below \<open>data = table.extract()\<close>: \<open>None\<close> is
  \<open>continue\<close>, taken when \<open>data\<close> is empty; otherwise \<open>rows, cols = len(data), len(data[0])\<close>,
  the new table is appended to the document and filled.
\<close>

definition copy_table :: "table_data \<Rightarrow> (exn option \<times> docx_table) option" where
  "copy_table data =
     (case data of
        [] \<Rightarrow> None
      | first # _ \<Rightarrow> Some (fill_rows (add_table (length data) (length first)) 0 data))"

fun copy_tables :: "(exn + table_data) list \<Rightarrow> document \<Rightarrow> exn option \<times> document" where
  "copy_tables [] doc = (None, doc)"
| "copy_tables (table # rest) doc =
     (case table of
        Inl x \<Rightarrow> (Some x, doc)
      | Inr data \<Rightarrow>
          (case copy_table data of
             None \<Rightarrow> copy_tables rest doc
           | Some (Some x, t) \<Rightarrow> (Some x, doc @ [Table t])
           | Some (None, t) \<Rightarrow> copy_tables rest (doc @ [Table t])))"

text \<open>
  \<open>AttributeError\<close> from \<open>page.find_tables()\<close> is caught (\<open>tables = None\<close>, then \<open>return\<close>); any
  other exception of it propagates, and so does every exception raised in the loop. An
  empty \<open>tables.tables\<close> is the same \<open>return\<close>.
\<close>

definition extract_tables :: "page \<Rightarrow> document \<Rightarrow> exn option \<times> document" where
  "extract_tables pg doc =
     (case find_tables pg of
        Inl x \<Rightarrow> if cls x = AttributeError then (None, doc) else (Some x, doc)
      | Inr tables \<Rightarrow> copy_tables tables doc)"

text \<open>
  The grid the specification describes: as many rows as the data, as many columns as
  the longest row, each cell trimmed, an absent cell and a cell past the end of a short
  row empty.
\<close>

definition max_row_length :: "table_data \<Rightarrow> nat" where
  "max_row_length data = foldr max (map length data) 0"

definition pad_row :: "nat \<Rightarrow> pystr option list \<Rightarrow> pystr list" where
  "pad_row n row = map cell_text row @ replicate (n - length row) []"

definition grid_of :: "table_data \<Rightarrow> docx_table" where
  "grid_of data =
     \<lparr>nrows = length data, ncols = max_row_length data,
      cells = concat (map (pad_row (max_row_length data)) data)\<rparr>"





section \<open>The file system\<close>

text \<open>
  A path is the list of its components (\<open>temp_dir / base_name\<close> appends one); the file
  system maps a path to a directory or to a file with its content: raw bytes, a
  serialized document, or what is left of a serialized document when the writing of
  it stopped after some bytes. The empty path is the root of the name space and always
  a directory.
\<close>

type_synonym path = "pystr list"

datatype content = Raw bytes | Docx document | Partial document nat

datatype node = File content | Dir

type_synonym filesystem = "(path \<times> node) list"

datatype fsop = MkDir | WriteBytes | Save | ReadFile | Unlink | RmDir

text \<open>
  Why an operation of the file system fails: the operating system refuses it
  (permissions, a locked file, a read-only volume), an entry is missing, is in the way,
  is or is not a directory, a directory is not empty, or the writing of a file that was
  opened stops part-way (a full disk, an input-output error).
\<close>

datatype os_failure =
  Refused | NoEntry | Exists | IsDirectory | NotDirectory | NotEmpty | WriteFailed

record datetime =
  year :: nat
  month :: nat
  day :: nat
  hour :: nat
  minute :: nat
  second :: nat
  microsecond :: nat

text \<open>
  The environment of a run: what \<open>fitz.open\<close> returns for a path (the pages of the
  document, or the exception), which image encodings python-docx recognises, which file
  operations the operating system refuses (\<open>denied\<close>), which writes stop part-way and
  after how many bytes (\<open>cut_short\<close>), the message of an \<open>OSError\<close> as the platform prints it
  (\<open>os_message\<close>: the error number, its text and the path), what the \<open>n\<close>-th call of
  \<open>datetime.now()\<close> returns, and the flavour of \<open>pathlib\<close> (\<open>windows\<close>, with \<open>str.lower\<close> as
  \<open>str_lower\<close>).
\<close>

record env =
  fitz_open :: "path \<Rightarrow> exn + page list"
  recognised :: "bytes \<Rightarrow> bool"
  denied :: "fsop \<Rightarrow> path \<Rightarrow> bool"
  cut_short :: "fsop \<Rightarrow> path \<Rightarrow> nat option"
  os_message :: "fsop \<Rightarrow> os_failure \<Rightarrow> path \<Rightarrow> pystr"
  clock :: "nat \<Rightarrow> datetime"
  windows :: bool
  str_lower :: "pystr \<Rightarrow> pystr"

definition is_dir :: "filesystem \<Rightarrow> path \<Rightarrow> bool" where
  "is_dir fs p \<longleftrightarrow> p = [] \<or> map_of fs p = Some Dir"

text \<open>The entries directly inside a directory: what \<open>d.glob("*")\<close> lists.\<close>

definition children :: "filesystem \<Rightarrow> path \<Rightarrow> path list" where
  "children fs d = remdups (filter (\<lambda>p. p \<noteq> [] \<and> butlast p = d) (map fst fs))"

definition os_error :: "env \<Rightarrow> fsop \<Rightarrow> os_failure \<Rightarrow> path \<Rightarrow> exn" where
  "os_error e opn why p = Exn OSError (os_message e opn why p)"

text \<open>What is wrong with the parent of a path that is not a directory.\<close>

definition parent_failure :: "filesystem \<Rightarrow> path \<Rightarrow> os_failure" where
  "parent_failure fs p = (case map_of fs (butlast p) of Some (File c) \<Rightarrow> NotDirectory | _ \<Rightarrow> NoEntry)"

text \<open>
  \<open>Path.mkdir(exist_ok=True)\<close>: an existing directory is accepted, an existing file is
  \<open>FileExistsError\<close>, a missing parent is \<open>FileNotFoundError\<close> (\<open>parents\<close> is not set).
\<close>

definition mkdir :: "env \<Rightarrow> path \<Rightarrow> filesystem \<Rightarrow> exn + filesystem" where
  "mkdir e p fs =
     (case map_of fs p of
        Some Dir \<Rightarrow> Inr fs
      | Some (File c) \<Rightarrow> Inl (os_error e MkDir Exists p)
      | None \<Rightarrow>
          if denied e MkDir p then Inl (os_error e MkDir Refused p)
          else if is_dir fs (butlast p) then Inr (AList.update p Dir fs)
          else Inl (os_error e MkDir (parent_failure fs p) p))"

text \<open>
  Opening a path for writing and storing \<open>c\<close>, as \<open>Path.write_bytes\<close> and \<open>doc.save\<close> do
  (the latter through \<open>ZipFile(path, "w")\<close>). When the path cannot be opened the file
  system is as before. Opening truncates the file; when the writing then stops
  part-way the exception leaves a file that holds what was written until then.
\<close>

fun cut :: "nat \<Rightarrow> content \<Rightarrow> content" where
  "cut n (Raw b) = Raw (take n b)"
| "cut n (Docx doc) = Partial doc n"
| "cut n (Partial doc m) = Partial doc (min n m)"

definition write_file ::
  "env \<Rightarrow> fsop \<Rightarrow> path \<Rightarrow> content \<Rightarrow> filesystem \<Rightarrow> exn option \<times> filesystem" where
  "write_file e opn p c fs =
     (if denied e opn p then (Some (os_error e opn Refused p), fs)
      else if map_of fs p = Some Dir then (Some (os_error e opn IsDirectory p), fs)
      else if \<not> is_dir fs (butlast p) then (Some (os_error e opn (parent_failure fs p) p), fs)
      else
        (case cut_short e opn p of
           Some n \<Rightarrow> (Some (os_error e opn WriteFailed p), AList.update p (File (cut n c)) fs)
         | None \<Rightarrow> (None, AList.update p (File c) fs)))"

definition write_bytes :: "env \<Rightarrow> path \<Rightarrow> bytes \<Rightarrow> filesystem \<Rightarrow> exn option \<times> filesystem" where
  "write_bytes e p b fs = write_file e WriteBytes p (Raw b) fs"

definition save :: "env \<Rightarrow> path \<Rightarrow> document \<Rightarrow> filesystem \<Rightarrow> exn option \<times> filesystem" where
  "save e p doc fs = write_file e Save p (Docx doc) fs"

text \<open>\<open>Path.unlink(missing_ok=True)\<close>: a missing entry is not an error, a directory is.\<close>

definition unlink :: "env \<Rightarrow> path \<Rightarrow> filesystem \<Rightarrow> exn + filesystem" where
  "unlink e p fs =
     (case map_of fs p of
        None \<Rightarrow> Inr fs
      | Some Dir \<Rightarrow> Inl (os_error e Unlink IsDirectory p)
      | Some (File c) \<Rightarrow>
          if denied e Unlink p then Inl (os_error e Unlink Refused p)
          else Inr (AList.delete p fs))"

definition rmdir :: "env \<Rightarrow> path \<Rightarrow> filesystem \<Rightarrow> exn + filesystem" where
  "rmdir e p fs =
     (case map_of fs p of
        Some Dir \<Rightarrow>
          if children fs p \<noteq> [] then Inl (os_error e RmDir NotEmpty p)
          else if denied e RmDir p then Inl (os_error e RmDir Refused p)
          else Inr (AList.delete p fs)
      | Some (File c) \<Rightarrow> Inl (os_error e RmDir NotDirectory p)
      | None \<Rightarrow> Inl (os_error e RmDir NoEntry p))"

text \<open>
  \<open>PurePath.with_name\<close> replaces the last component and raises \<open>ValueError\<close> on a path
  that has none; the message prints the path, \<open>PosixPath('.')\<close> for the empty one.
\<close>

definition with_name :: "path \<Rightarrow> pystr \<Rightarrow> exn + path" where
  "with_name p n =
     (if p = []
      then Inl (Exn ValueError
                  (ascii ''PosixPath('' @ [39] @ ascii ''.'' @ [39] @ ascii '') has an empty name''))
      else Inr (butlast p @ [n]))"

section \<open>Image Extractor: \<open>extract_images\<close>\<close>

text \<open>\<open>Inches(2.5)\<close> in English Metric Units: \<open>int(2.5 * 914400)\<close>.\<close>

definition picture_width :: nat where
  "picture_width = 2286000"

text \<open>\<open>f"img_{xref}.png"\<close>\<close>

definition base_name :: "nat \<Rightarrow> pystr" where
  "base_name xref = ascii ''img_'' @ str_nat xref @ ascii ''.png''"

text \<open>
  \<open>Document.add_picture(path, width)\<close> of python-docx is
  \<open>run = self.add_paragraph().add_run(); return run.add_picture(path, width)\<close>: it appends
  an empty paragraph and then reads the image file into it. When the file cannot be
  read or its encoding is not recognised the call raises (\<open>UnrecognizedImageError\<close> has no
  message), and the empty paragraph stays in the document. The result is the exception,
  if any, and the document afterwards. A file that was written is taken to be readable.
\<close>

definition unrecognised :: exn where
  "unrecognised = Exn OtherException []"

definition add_picture :: "env \<Rightarrow> filesystem \<Rightarrow> path \<Rightarrow> nat \<Rightarrow> document \<Rightarrow> exn option \<times> document" where
  "add_picture e fs p width doc =
     (case map_of fs p of
        Some (File (Raw b)) \<Rightarrow>
          if recognised e b then (None, doc @ [Picture b width])
          else (Some unrecognised, doc @ [Paragraph []])
      | Some (File (Docx d)) \<Rightarrow> (Some unrecognised, doc @ [Paragraph []])
      | Some (File (Partial d n)) \<Rightarrow> (Some unrecognised, doc @ [Paragraph []])
      | Some Dir \<Rightarrow> (Some (os_error e ReadFile IsDirectory p), doc @ [Paragraph []])
      | None \<Rightarrow> (Some (os_error e ReadFile NoEntry p), doc @ [Paragraph []]))"

text \<open>
  The body of the loop over \<open>page.get_images(full=True)\<close> for one \<open>xref\<close>. Resolving the
  bytes and writing the temporary file stand outside the \<open>try\<close>: their exception leaves
  the function. The exception of \<open>add_picture\<close> is caught and dropped
  (\<open>except Exception: pass\<close>).
\<close>

definition extract_one_image ::
  "env \<Rightarrow> page \<Rightarrow> path \<Rightarrow> nat \<Rightarrow> document \<Rightarrow> filesystem \<Rightarrow> exn option \<times> document \<times> filesystem" where
  "extract_one_image e pg temp_dir xref doc fs =
     (case extract_image pg xref of
        Inl x \<Rightarrow> (Some x, doc, fs)
      | Inr img_bytes \<Rightarrow>
          (let tmp_path = temp_dir @ [base_name xref]
           in case write_bytes e tmp_path img_bytes fs of
                (Some x, fs') \<Rightarrow> (Some x, doc, fs')
              | (None, fs') \<Rightarrow> (None, snd (add_picture e fs' tmp_path picture_width doc), fs')))"

fun extract_images_from ::
  "env \<Rightarrow> page \<Rightarrow> path \<Rightarrow> nat list \<Rightarrow> document \<Rightarrow> filesystem \<Rightarrow> exn option \<times> document \<times> filesystem" where
  "extract_images_from e pg temp_dir [] doc fs = (None, doc, fs)"
| "extract_images_from e pg temp_dir (xref # rest) doc fs =
     (case extract_one_image e pg temp_dir xref doc fs of
        (Some x, doc', fs') \<Rightarrow> (Some x, doc', fs')
      | (None, doc', fs') \<Rightarrow> extract_images_from e pg temp_dir rest doc' fs')"

definition extract_images ::
  "env \<Rightarrow> page \<Rightarrow> document \<Rightarrow> path \<Rightarrow> filesystem \<Rightarrow> exn option \<times> document \<times> filesystem" where
  "extract_images e pg doc temp_dir fs =
     (case get_images pg of
        Inl x \<Rightarrow> (Some x, doc, fs)
      | Inr xrefs \<Rightarrow> extract_images_from e pg temp_dir xrefs doc fs)"

section \<open>Conversion Engine: \<open>convert_pdf_to_docx\<close>\<close>

text \<open>
  \<open>strftime("%Y%m%d%H%M%S")\<close>: the year in four digits, every other field in two. The
  microsecond is not printed.
\<close>

definition two_digits :: "nat \<Rightarrow> pystr" where
  "two_digits n = [48 + n div 10 mod 10, 48 + n mod 10]"

definition four_digits :: "nat \<Rightarrow> pystr" where
  "four_digits n = [48 + n div 1000 mod 10, 48 + n div 100 mod 10, 48 + n div 10 mod 10, 48 + n mod 10]"

definition strftime :: "datetime \<Rightarrow> pystr" where
  "strftime dt =
     four_digits (year dt) @ two_digits (month dt) @ two_digits (day dt) @
     two_digits (hour dt) @ two_digits (minute dt) @ two_digits (second dt)"

text \<open>The ranges of the fields of a \<open>datetime\<close> (\<open>MINYEAR = 1\<close>, \<open>MAXYEAR = 9999\<close>).\<close>

definition valid_datetime :: "datetime \<Rightarrow> bool" where
  "valid_datetime dt \<longleftrightarrow>
     1 \<le> year dt \<and> year dt \<le> 9999 \<and> 1 \<le> month dt \<and> month dt \<le> 12 \<and>
     1 \<le> day dt \<and> day dt \<le> 31 \<and> hour dt < 24 \<and> minute dt < 60 \<and> second dt < 60 \<and>
     microsecond dt < 1000000"

text \<open>\<open>"_tmp_imgs_%s" % datetime.now().strftime("%Y%m%d%H%M%S")\<close>\<close>

definition temp_name :: "datetime \<Rightarrow> pystr" where
  "temp_name dt = ascii ''_tmp_imgs_'' @ strftime dt"

text \<open>
  The state a conversion changes: the file system, the number of calls of
  \<open>datetime.now()\<close> so far, and how many source documents have been opened and closed.
\<close>

record world =
  filesys :: filesystem
  ticks :: nat
  opened :: nat
  closed :: nat

text \<open>
  The body of the loop \<open>for page in pdf\<close> for one page, and the loop on the pages still
  to do, with the document built so far.
\<close>

definition convert_page ::
  "env \<Rightarrow> bool \<Rightarrow> path \<Rightarrow> page \<Rightarrow> document \<Rightarrow> filesystem \<Rightarrow> exn option \<times> document \<times> filesystem" where
  "convert_page e include_images temp_dir pg doc fs =
     (case get_text pg of
        Inl x \<Rightarrow> (Some x, doc, fs)
      | Inr raw \<Rightarrow>
          (let text = strip raw
           in case (if text \<noteq> [] then add_paragraph text doc else (None, doc)) of
                (Some x, doc1) \<Rightarrow> (Some x, doc1, fs)
              | (None, doc1) \<Rightarrow>
                  (case extract_tables pg doc1 of
                     (Some x, doc2) \<Rightarrow> (Some x, doc2, fs)
                   | (None, doc2) \<Rightarrow>
                       if include_images then extract_images e pg doc2 temp_dir fs
                       else (None, doc2, fs))))"

fun convert_pages ::
  "env \<Rightarrow> bool \<Rightarrow> path \<Rightarrow> page list \<Rightarrow> document \<Rightarrow> filesystem \<Rightarrow> exn option \<times> document \<times> filesystem" where
  "convert_pages e include_images temp_dir [] doc fs = (None, doc, fs)"
| "convert_pages e include_images temp_dir (pg # rest) doc fs =
     (case convert_page e include_images temp_dir pg doc fs of
        (Some x, doc', fs') \<Rightarrow> (Some x, doc', fs')
      | (None, doc', fs') \<Rightarrow> convert_pages e include_images temp_dir rest doc' fs')"

text \<open>
  The body of the \<open>try\<close>: the page loop on the new empty document, then
  \<open>doc.save(docx_path)\<close>. The document is local to the call: what is left of it when an
  exception is raised is dropped.
\<close>

definition try_body ::
  "env \<Rightarrow> page list \<Rightarrow> path \<Rightarrow> bool \<Rightarrow> path \<Rightarrow> filesystem \<Rightarrow> (exn + unit) \<times> filesystem" where
  "try_body e pdf docx_path include_images temp_dir fs0 =
     (case convert_pages e include_images temp_dir pdf [] fs0 of
        (Some x, doc, fs1) \<Rightarrow> (Inl x, fs1)
      | (None, doc, fs1) \<Rightarrow>
          (case save e docx_path doc fs1 of
             (Some x, fs2) \<Rightarrow> (Inl x, fs2)
           | (None, fs2) \<Rightarrow> (Inr (), fs2)))"

text \<open>
  The \<open>finally\<close> block up to \<open>pdf.close()\<close>. Every exception of \<open>unlink\<close> is dropped; of
  \<open>rmdir\<close> only an \<open>OSError\<close> is, and any other would leave the block: the first component
  is that exception.
\<close>

fun unlink_all :: "env \<Rightarrow> path list \<Rightarrow> filesystem \<Rightarrow> filesystem" where
  "unlink_all e [] fs = fs"
| "unlink_all e (img_file # rest) fs =
     unlink_all e rest (case unlink e img_file fs of Inl _ \<Rightarrow> fs | Inr fs' \<Rightarrow> fs')"

definition cleanup :: "env \<Rightarrow> path \<Rightarrow> filesystem \<Rightarrow> exn option \<times> filesystem" where
  "cleanup e temp_dir fs0 =
     (let fs1 = unlink_all e (children fs0 temp_dir) fs0
      in case rmdir e temp_dir fs1 of
           Inl x \<Rightarrow> if cls x = OSError then (None, fs1) else (Some x, fs1)
         | Inr fs2 \<Rightarrow> (None, fs2))"

text \<open>
  The whole function. \<open>fitz.open\<close>, \<open>with_name\<close> and \<open>mkdir\<close> stand before the \<open>try\<close>: their
  exception leaves the function at once. From then on the \<open>finally\<close> block runs whatever
  the body did, and \<open>pdf.close()\<close> is its last statement.
\<close>

definition convert_pdf_to_docx :: "env \<Rightarrow> path \<Rightarrow> path \<Rightarrow> bool \<Rightarrow> world \<Rightarrow> (exn + unit) \<times> world" where
  "convert_pdf_to_docx e pdf_path docx_path include_images w =
     (case fitz_open e pdf_path of
        Inl x \<Rightarrow> (Inl x, w)
      | Inr pdf \<Rightarrow>
          (let w1 = w\<lparr>opened := opened w + 1\<rparr>;
               now = clock e (ticks w1);
               w2 = w1\<lparr>ticks := ticks w1 + 1\<rparr>
           in case with_name docx_path (temp_name now) of
                Inl x \<Rightarrow> (Inl x, w2)
              | Inr temp_dir \<Rightarrow>
                  (case mkdir e temp_dir (filesys w2) of
                     Inl x \<Rightarrow> (Inl x, w2)
                   | Inr fs0 \<Rightarrow>
                       (let (r, fs1) = try_body e pdf docx_path include_images temp_dir fs0;
                            (escaped, fs2) = cleanup e temp_dir fs1
                        in case escaped of
                             Some x \<Rightarrow> (Inl x, w2\<lparr>filesys := fs2\<rparr>)
                           | None \<Rightarrow> (r, w2\<lparr>filesys := fs2, closed := closed w2 + 1\<rparr>)))))"

section \<open>What a conversion transfers, and what it leaves on disk\<close>

text \<open>
  The blocks one page contributes, as the specification lists them: a paragraph with
  the trimmed text when it is not empty, the tables, and with \<open>include_images\<close> one block
  for each image reference: the picture, or the empty paragraph a rejected picture
  leaves. \<open>document_of\<close> is the document of all pages in source order.
\<close>

definition text_blocks :: "page \<Rightarrow> document" where
  "text_blocks pg =
     (case get_text pg of
        Inl _ \<Rightarrow> []
      | Inr raw \<Rightarrow> if strip raw \<noteq> [] then [Paragraph (strip raw)] else [])"

definition table_blocks :: "page \<Rightarrow> document" where
  "table_blocks pg = (case extract_tables pg [] of (None, d) \<Rightarrow> d | (Some x, d) \<Rightarrow> [])"

definition image_block :: "env \<Rightarrow> bytes \<Rightarrow> block" where
  "image_block e b = (if recognised e b then Picture b picture_width else Paragraph [])"

definition image_blocks :: "env \<Rightarrow> page \<Rightarrow> nat list \<Rightarrow> document" where
  "image_blocks e pg xrefs =
     map (\<lambda>xref. case extract_image pg xref of Inl _ \<Rightarrow> Paragraph [] | Inr b \<Rightarrow> image_block e b) xrefs"

definition image_refs :: "page \<Rightarrow> nat list" where
  "image_refs pg = (case get_images pg of Inl x \<Rightarrow> [] | Inr xrefs \<Rightarrow> xrefs)"

definition page_blocks :: "env \<Rightarrow> bool \<Rightarrow> page \<Rightarrow> document" where
  "page_blocks e include_images pg =
     text_blocks pg @ table_blocks pg @
     (if include_images then image_blocks e pg (image_refs pg) else [])"

definition document_of :: "env \<Rightarrow> bool \<Rightarrow> page list \<Rightarrow> document" where
  "document_of e include_images pdf = concat (map (page_blocks e include_images) pdf)"

fun is_picture :: "block \<Rightarrow> bool" where
  "is_picture (Picture _ _) = True"
| "is_picture _ = False"

text \<open>A paragraph that carries text, or a table.\<close>

fun text_or_table :: "block \<Rightarrow> bool" where
  "text_or_table (Paragraph t) = (t \<noteq> [])"
| "text_or_table (Table _) = True"
| "text_or_table (Picture _ _) = False"

text \<open>The content of the file at a path, if there is a file.\<close>

definition file_at :: "filesystem \<Rightarrow> path \<Rightarrow> content option" where
  "file_at fs p = (case map_of fs p of Some (File c) \<Rightarrow> Some c | _ \<Rightarrow> None)"

text \<open>\<open>inside d p\<close>: the path \<open>p\<close> is an entry directly inside the directory \<open>d\<close>.\<close>

definition inside :: "path \<Rightarrow> path \<Rightarrow> bool" where
  "inside d p \<longleftrightarrow> p \<noteq> [] \<and> butlast p = d"

text \<open>
  An image reference whose bytes the parser resolves and whose temporary file can be
  written: the write is not refused, it does not stop part-way, and no directory stands
  in its place.
\<close>

definition transferable :: "env \<Rightarrow> page \<Rightarrow> path \<Rightarrow> filesystem \<Rightarrow> nat \<Rightarrow> bool" where
  "transferable e pg temp_dir fs xref \<longleftrightarrow>
     isl (extract_image pg xref) = False \<and>
     denied e WriteBytes (temp_dir @ [base_name xref]) = False \<and>
     cut_short e WriteBytes (temp_dir @ [base_name xref]) = None \<and>
     map_of fs (temp_dir @ [base_name xref]) \<noteq> Some Dir"

text \<open>
  A page whose text and tables reach the document: the parser returns the text and
  python-docx accepts it, and the tables are copied without an exception.
\<close>

definition page_text_ok :: "page \<Rightarrow> bool" where
  "page_text_ok pg \<longleftrightarrow>
     (case get_text pg of Inl x \<Rightarrow> False | Inr raw \<Rightarrow> list_all xml_char (strip raw)) \<and>
     fst (extract_tables pg []) = None"

text \<open>
  A page every step of which returns: its text and tables reach the document, and with
  \<open>include_images\<close> the parser lists the image references and resolves the bytes of each.
\<close>

definition page_readable :: "bool \<Rightarrow> page \<Rightarrow> bool" where
  "page_readable include_images pg \<longleftrightarrow>
     page_text_ok pg \<and>
     (if include_images
      then isl (get_images pg) = False \<and>
           list_all (\<lambda>xref. isl (extract_image pg xref) = False) (image_refs pg)
      else True)"

text \<open>
  A page of which every step other than the insertion of a picture goes through: its
  text and tables reach the document, the parser lists its image references, and each
  of them is transferable.
\<close>

definition page_sound :: "env \<Rightarrow> path \<Rightarrow> filesystem \<Rightarrow> page \<Rightarrow> bool" where
  "page_sound e temp_dir fs pg \<longleftrightarrow>
     page_text_ok pg \<and>
     (case get_images pg of
        Inl x \<Rightarrow> False
      | Inr xrefs \<Rightarrow> list_all (transferable e pg temp_dir fs) xrefs)"

text \<open>
  The environment \<open>e\<close> with other refusals of the two cleanup operations, \<open>unlink\<close> and
  \<open>rmdir\<close>, and everything else as it is.
\<close>

definition refusing :: "env \<Rightarrow> (fsop \<Rightarrow> path \<Rightarrow> bool) \<Rightarrow> env" where
  "refusing e d =
     e\<lparr>denied := (\<lambda>opn p. if opn = Unlink \<or> opn = RmDir then d opn p else denied e opn p)\<rparr>"

text \<open>The bytes of the image references of a page that the parser resolves, in order.\<close>

definition image_bytes :: "page \<Rightarrow> nat list \<Rightarrow> bytes list" where
  "image_bytes pg xrefs =
     concat (map (\<lambda>xref. case extract_image pg xref of Inl _ \<Rightarrow> [] | Inr b \<Rightarrow> [b]) xrefs)"

section \<open>Batch Driver: \<open>_convert_all_pdfs\<close> and \<open>_convert_single\<close>\<close>

text \<open>
  What the window shows is kept as a log, in the order of the calls: every value the
  status line is set to (\<open>_set_status\<close>) and every message box. The record has the three
  Tk variables the driver reads, the status variable and the progress bar. The timer
  \<open>prog.after(2000, ...)\<close> that resets the bar two seconds after the batch is real time and
  is left out.
\<close>

datatype dialog = ShowWarning pystr pystr | ShowError pystr pystr | ShowInfo pystr pystr

datatype ui_event = Status pystr | Dialog dialog

record gui =
  src_dir :: path
  dst_dir :: path
  include_imgs :: bool
  status :: pystr
  prog_maximum :: nat
  prog_value :: nat
  log :: "ui_event list"

definition set_status :: "gui \<Rightarrow> pystr \<Rightarrow> gui" where
  "set_status g txt = g\<lparr>status := txt, log := log g @ [Status txt]\<rparr>"

definition update_progress :: "gui \<Rightarrow> nat \<Rightarrow> gui" where
  "update_progress g val = g\<lparr>prog_value := val\<rparr>"

definition show_dialog :: "gui \<Rightarrow> dialog \<Rightarrow> gui" where
  "show_dialog g d = g\<lparr>log := log g @ [Dialog d]\<rparr>"

text \<open>
  \<open>Path(src).glob("*.pdf")\<close> lists the entries of the folder whose name matches the
  pattern: the name ends in \<open>.pdf\<close>. On the Windows flavour of \<open>pathlib\<close> the match ignores
  case (the pattern is compiled with \<open>re.IGNORECASE\<close>); for the letters of this pattern
  that is the comparison after mapping \<open>A\<close>..\<open>Z\<close> to \<open>a\<close>..\<open>z\<close>.
\<close>

definition ascii_lower :: "nat \<Rightarrow> nat" where
  "ascii_lower c = (if 65 \<le> c \<and> c \<le> 90 then c + 32 else c)"

definition matches_pdf :: "bool \<Rightarrow> pystr \<Rightarrow> bool" where
  "matches_pdf ignore_case name \<longleftrightarrow>
     4 \<le> length name \<and>
     (let ending = drop (length name - 4) name
      in if ignore_case then map ascii_lower ending = ascii ''.pdf''
         else ending = ascii ''.pdf'')"

definition glob_pdf :: "env \<Rightarrow> filesystem \<Rightarrow> path \<Rightarrow> path list" where
  "glob_pdf e fs d = filter (\<lambda>p. matches_pdf (windows e) (last p)) (children fs d)"

text \<open>
  \<open>sorted\<close> compares paths by their components, strings by their code points; on the
  Windows flavour the components are compared in lower case. The sort is stable.
\<close>

definition path_key :: "env \<Rightarrow> path \<Rightarrow> path" where
  "path_key e p = (if windows e then map (str_lower e) p else p)"

definition pdf_paths :: "env \<Rightarrow> filesystem \<Rightarrow> path \<Rightarrow> path list" where
  "pdf_paths e fs d = sort_key (path_key e) (glob_pdf e fs d)"

text \<open>
  \<open>PurePath.stem\<close>: the name without its last suffix. With \<open>i = name.rfind('.')\<close> it is
  \<open>name[:i]\<close> when \<open>0 < i < len(name) - 1\<close> and the name otherwise; \<open>n\<close> below is \<open>i + 1\<close>,
  and \<open>0\<close> when the name has no dot.
\<close>

definition stem :: "pystr \<Rightarrow> pystr" where
  "stem name =
     (let n = length (dropWhile (\<lambda>c. c \<noteq> 46) (rev name))
      in if 1 < n \<and> n < length name then take (n - 1) name else name)"

definition dst_file :: "gui \<Rightarrow> path \<Rightarrow> path" where
  "dst_file g pdf_path = dst_dir g @ [stem (last pdf_path) @ ascii ''.docx'']"

text \<open>\<open>f"Falha ao converter {pdf_path.name}: {exc}"\<close>\<close>

definition failure_message :: "path \<Rightarrow> exn \<Rightarrow> pystr" where
  "failure_message pdf_path exc =
     ascii ''Falha ao converter '' @ last pdf_path @ ascii '': '' @ msg exc"

definition convert_single :: "env \<Rightarrow> gui \<Rightarrow> world \<Rightarrow> path \<Rightarrow> gui \<times> world" where
  "convert_single e g w pdf_path =
     (case convert_pdf_to_docx e pdf_path (dst_file g pdf_path) (include_imgs g) w of
        (Inl exc, w') \<Rightarrow>
          (show_dialog g (ShowError (ascii ''Erro'') (failure_message pdf_path exc)), w')
      | (Inr _, w') \<Rightarrow> (g, w'))"

text \<open>\<open>f"{pdf_path.name} ({idx}/{total})"\<close>\<close>

definition file_status :: "path \<Rightarrow> nat \<Rightarrow> nat \<Rightarrow> pystr" where
  "file_status pdf_path idx total_n =
     last pdf_path @ ascii '' ('' @ str_nat idx @ ascii ''/'' @ str_nat total_n @ ascii '')''"

text \<open>\<open>"Convertendo 0/%d..." % total\<close>, with the ellipsis U+2026.\<close>

definition start_status :: "nat \<Rightarrow> pystr" where
  "start_status total_n = ascii ''Convertendo 0/'' @ str_nat total_n @ [8230]"

text \<open>\<open>f"Concluido! {total} arquivo(s) convertidos."\<close>, with the i acute U+00ED.\<close>

definition done_status :: "nat \<Rightarrow> pystr" where
  "done_status total_n =
     ascii ''Conclu'' @ [237] @ ascii ''do! '' @ str_nat total_n @ ascii '' arquivo(s) convertidos.''"

text \<open>The message boxes; a tilde U+00E3 and e circumflex U+00EA in the last.\<close>

definition no_pdf_warning :: dialog where
  "no_pdf_warning = ShowWarning (ascii ''Aviso'') (ascii ''Nenhum PDF encontrado na pasta selecionada.'')"

definition success_info :: dialog where
  "success_info =
     ShowInfo (ascii ''Sucesso'')
       (ascii ''Convers'' @ [227] @ ascii ''o finalizada com '' @ [234] @ ascii ''xito!'')"

text \<open>The loop \<open>for idx, pdf_path in enumerate(pdf_paths, start=1)\<close>.\<close>

fun convert_each :: "env \<Rightarrow> nat \<Rightarrow> nat \<Rightarrow> path list \<Rightarrow> gui \<Rightarrow> world \<Rightarrow> gui \<times> world" where
  "convert_each e total_n idx [] g w = (g, w)"
| "convert_each e total_n idx (pdf_path # rest) g w =
     (let g1 = set_status g (file_status pdf_path idx total_n);
          (g2, w2) = convert_single e g1 w pdf_path;
          g3 = update_progress g2 idx
      in convert_each e total_n (idx + 1) rest g3 w2)"

definition convert_all_pdfs :: "env \<Rightarrow> gui \<Rightarrow> world \<Rightarrow> gui \<times> world" where
  "convert_all_pdfs e g w =
     (let paths = pdf_paths e (filesys w) (src_dir g);
          total_n = length paths
      in if total_n = 0 then (show_dialog g no_pdf_warning, w)
         else
           (let g1 = set_status (g\<lparr>prog_maximum := total_n, prog_value := 0\<rparr>) (start_status total_n);
                (g2, w2) = convert_each e total_n 1 paths g1 w;
                g3 = set_status g2 (done_status total_n)
            in (show_dialog g3 success_info, w2)))"

text \<open>
  The outcome of each file of a batch, in order: the conversions run one after the other,
  each on the state the one before left.
\<close>

fun batch_results :: "env \<Rightarrow> gui \<Rightarrow> world \<Rightarrow> path list \<Rightarrow> (path \<times> (exn + unit)) list" where
  "batch_results e g w [] = []"
| "batch_results e g w (pdf_path # rest) =
     (case convert_pdf_to_docx e pdf_path (dst_file g pdf_path) (include_imgs g) w of
        (r, w') \<Rightarrow> (pdf_path, r) # batch_results e g w' rest)"

text \<open>
  What the window shows for one file: its name with its index and the total, and when
  its conversion failed the error box with its name and the cause.
\<close>

definition file_report :: "nat \<Rightarrow> nat \<times> path \<times> (exn + unit) \<Rightarrow> ui_event list" where
  "file_report total_n entry =
     (case entry of
        (idx, pdf_path, r) \<Rightarrow>
          Status (file_status pdf_path idx total_n) #
          (case r of
             Inl exc \<Rightarrow> [Dialog (ShowError (ascii ''Erro'') (failure_message pdf_path exc))]
           | Inr _ \<Rightarrow> []))"

section \<open>A sample run\<close>

text \<open>
  A concrete environment on which the theorems below are exercised. The source
  \<open>in/a.pdf\<close> has one page with the text \<open>Hello\<close> in whitespace, one table of two rows
  and three image references; python-docx recognises an image by the first byte of the
  PNG signature, so the second image is rejected. The folder \<open>out\<close> exists and is empty.
\<close>

definition sample_page :: page where
  "sample_page =
     \<lparr>get_text = Inr (ascii '' Hello ''),
      find_tables = Inr [Inr [[Some (ascii ''a''), Some (ascii ''b'')], [Some (ascii ''c''), None]]],
      get_images = Inr [7, 8, 9],
      extract_image = (\<lambda>xref. if xref = 8 then Inr [0, 1] else Inr [137, xref])\<rparr>"

definition sample_time :: datetime where
  "sample_time =
     \<lparr>year = 2024, month = 5, day = 17, hour = 9, minute = 30, second = 15, microsecond = 0\<rparr>"

text \<open>
  The messages of the sample platform, as Linux prints them for names that need no
  escaping: \<open>[Errno 2] No such file or directory: 'missing/x'\<close>.
\<close>

fun join_path :: "path \<Rightarrow> pystr" where
  "join_path [] = ascii ''.''"
| "join_path [name] = name"
| "join_path (name # rest) = name @ ascii ''/'' @ join_path rest"

fun errno_text :: "os_failure \<Rightarrow> pystr" where
  "errno_text Refused = ascii ''[Errno 13] Permission denied''"
| "errno_text NoEntry = ascii ''[Errno 2] No such file or directory''"
| "errno_text Exists = ascii ''[Errno 17] File exists''"
| "errno_text IsDirectory = ascii ''[Errno 21] Is a directory''"
| "errno_text NotDirectory = ascii ''[Errno 20] Not a directory''"
| "errno_text NotEmpty = ascii ''[Errno 39] Directory not empty''"
| "errno_text WriteFailed = ascii ''[Errno 28] No space left on device''"

definition sample_message :: "fsop \<Rightarrow> os_failure \<Rightarrow> path \<Rightarrow> pystr" where
  "sample_message opn why p = errno_text why @ ascii '': '' @ [39] @ join_path p @ [39]"

definition sample_env :: env where
  "sample_env =
     \<lparr>fitz_open = (\<lambda>p. if p = [ascii ''in'', ascii ''a.pdf''] then Inr [sample_page]
                         else Inl (Exn OtherException (ascii ''no such file''))),
      recognised = (\<lambda>b. take 1 b = [137]),
      denied = (\<lambda>opn p. False),
      cut_short = (\<lambda>opn p. None),
      os_message = sample_message,
      clock = (\<lambda>n. sample_time\<lparr>microsecond := n\<rparr>),
      windows = False,
      str_lower = (\<lambda>s. s)\<rparr>"

definition sample_world :: world where
  "sample_world = \<lparr>filesys = [([ascii ''out''], Dir)], ticks = 0, opened = 0, closed = 0\<rparr>"

definition sample_document :: "bool \<Rightarrow> document" where
  "sample_document include_images =
     [Paragraph (ascii ''Hello''),
      Table \<lparr>nrows = 2, ncols = 2, cells = [ascii ''a'', ascii ''b'', ascii ''c'', []]\<rparr>] @
     (if include_images
      then [Picture [137, 7] picture_width, Paragraph [], Picture [137, 9] picture_width]
      else [])"

text \<open>The sample environment in which the operating system refuses to unlink \<open>img_7.png\<close>.\<close>

definition locked_env :: env where
  "locked_env = refusing sample_env (\<lambda>opn p. opn = Unlink \<and> last p = ascii ''img_7.png'')"

text \<open>
  The sample environment on a full disk: every save stops after 100 bytes. The folder
  \<open>out\<close> holds an earlier \<open>a.docx\<close>.
\<close>

definition full_disk_env :: env where
  "full_disk_env = sample_env\<lparr>cut_short := (\<lambda>opn p. if opn = Save then Some 100 else None)\<rparr>"


text \<open>
  The sample source with a second image that the parser cannot extract:
  \<open>extract_image(8)["image"]\<close> raises \<open>KeyError\<close>, whose message is the quoted key.
\<close>

definition broken_page :: page where
  "broken_page =
     sample_page\<lparr>extract_image :=
       (\<lambda>xref. if xref = 8 then Inl (Exn OtherException ([39] @ ascii ''image'' @ [39]))
                else Inr [137, xref])\<rparr>"

definition broken_env :: env where
  "broken_env =
     sample_env\<lparr>fitz_open := (\<lambda>p. if p = [ascii ''in'', ascii ''a.pdf''] then Inr [broken_page]
                                   else Inl (Exn OtherException (ascii ''no such file'')))\<rparr>"

text \<open>
  A batch: the folder \<open>in\<close> holds \<open>b.pdf\<close>, \<open>REPORT.PDF\<close> and \<open>a.pdf\<close>, of which only \<open>b.pdf\<close>
  can be opened.
\<close>

definition batch_env :: env where
  "batch_env =
     sample_env\<lparr>fitz_open := (\<lambda>p. if p = [ascii ''in'', ascii ''b.pdf''] then Inr [sample_page]
                                  else Inl (Exn OtherException (ascii ''cannot open'')))\<rparr>"

definition batch_world :: world where
  "batch_world =
     \<lparr>filesys = [([ascii ''in''], Dir), ([ascii ''out''], Dir),
                 ([ascii ''in'', ascii ''b.pdf''], File (Raw [])),
                 ([ascii ''in'', ascii ''REPORT.PDF''], File (Raw [])),
                 ([ascii ''in'', ascii ''a.pdf''], File (Raw []))],
      ticks = 0, opened = 0, closed = 0\<rparr>"

definition batch_gui :: gui where
  "batch_gui =
     \<lparr>src_dir = [ascii ''in''], dst_dir = [ascii ''out''], include_imgs = True,
      status = ascii ''Pronto'', prog_maximum = 0, prog_value = 0, log = []\<rparr>"

lemma set_run_text_clean: "list_all xml_char s \<Longrightarrow> set_run_text s = (None, s)"
  by (simp add: set_run_text_def)

lemma set_run_text_raises: "\<not> list_all xml_char s \<Longrightarrow> fst (set_run_text s) \<noteq> None"
  by (simp add: set_run_text_def Let_def)








lemma concat_pad_nth:
  "r < length data \<Longrightarrow> c < n \<Longrightarrow> list_all (\<lambda>row. length row \<le> n) data \<Longrightarrow>
   concat (map (pad_row n) data) ! (c + r * n) = pad_row n (data ! r) ! c"
proof (induction data arbitrary: r)
  case Nil
  then show ?case by simp
next
  case (Cons row rows)
  have len: "length (pad_row n row) = n" using Cons.prems(3) by (simp add: pad_row_def)
  show ?case
  proof (cases r)
    case 0
    then show ?thesis using Cons.prems len by (simp add: nth_append)
  next
    case (Suc r')
    then show ?thesis using Cons len by (simp add: nth_append)
  qed
qed

lemma max_row_length_ge: "list_all (\<lambda>row. length row \<le> max_row_length data) data"
proof -
  have "row \<in> set data \<Longrightarrow> length row \<le> max_row_length data" for row
    by (induction data) (auto simp: max_row_length_def max_def)
  then show ?thesis by (simp add: list_all_iff)
qed

lemma cell_at_grid_of:
  "r < length data \<Longrightarrow> c < max_row_length data \<Longrightarrow>
   cell_at (grid_of data) r c =
     (if c < length (data ! r) then cell_text (data ! r ! c) else [])"
  using concat_pad_nth [OF _ _ max_row_length_ge, of r data c]
  by (simp add: cell_at_def grid_of_def pad_row_def nth_append)

lemma strip_shape:
  "\<exists>pre suf. s = pre @ strip s @ suf \<and> list_all isspace pre \<and> list_all isspace suf"
proof -
  let ?a = "takeWhile isspace s" and ?m = "dropWhile isspace s"
  let ?b = "rev (takeWhile isspace (rev ?m))"
  have 1: "s = ?a @ ?m" by simp
  have "takeWhile isspace (rev ?m) @ dropWhile isspace (rev ?m) = rev ?m"
    by (rule takeWhile_dropWhile_id)
  then have "rev (takeWhile isspace (rev ?m) @ dropWhile isspace (rev ?m)) = rev (rev ?m)"
    by (rule arg_cong)
  then have "rev (dropWhile isspace (rev ?m)) @ ?b = ?m"
    by (simp only: rev_append rev_rev_ident)
  then have 2: "?m = strip s @ ?b" by (simp only: strip_def)
  have 3: "list_all isspace ?a" by (simp add: list_all_iff) (meson set_takeWhileD)
  have 4: "list_all isspace ?b" by (simp add: list_all_iff) (meson set_takeWhileD)
  from 1 2 have "s = ?a @ strip s @ ?b" by simp
  with 3 4 show ?thesis by blast
qed

lemma dropWhile_rev_last:
  "dropWhile P (rev xs) \<noteq> [] \<Longrightarrow> last (dropWhile P (rev xs)) = hd xs"
proof -
  assume d: "dropWhile P (rev xs) \<noteq> []"
  obtain k where k: "dropWhile P (rev xs) = drop k (rev xs)"
    by (metis dropWhile_eq_drop)
  have ne: "xs \<noteq> []" using d by (cases xs) simp_all
  have "k < length (rev xs)" using d k by (metis drop_eq_Nil not_le)
  then have "last (drop k (rev xs)) = last (rev xs)" by (rule last_drop)
  then show ?thesis using k ne by (simp add: last_rev)
qed

lemma strip_ends:
  "strip s \<noteq> [] \<Longrightarrow> \<not> isspace (hd (strip s)) \<and> \<not> isspace (last (strip s))"
proof -
  assume ne: "strip s \<noteq> []"
  let ?m = "dropWhile isspace s"
  let ?d = "dropWhile isspace (rev ?m)"
  have d: "?d \<noteq> []" using ne by (simp add: strip_def)
  then have a: "\<not> isspace (hd ?d)" by (rule hd_dropWhile)
  have "last (strip s) = hd ?d" using d by (simp add: strip_def last_rev)
  with a have l: "\<not> isspace (last (strip s))" by simp
  have mne: "?m \<noteq> []"
  proof
    assume "?m = []"
    then have "?d = []" by (simp only: rev.simps dropWhile.simps)
    with d show False by simp
  qed
  have hm: "\<not> isspace (hd ?m)" using mne by (rule hd_dropWhile)
  have "hd (strip s) = last ?d" using d by (simp add: strip_def hd_rev)
  also have "\<dots> = hd ?m" using d by (rule dropWhile_rev_last)
  finally show ?thesis using hm l by simp
qed

section \<open>Lemmas about the file system and the two extractors\<close>

subsection \<open>File-system operations as map updates\<close>

lemma mkdir_map: "mkdir e p fs = Inr fs' \<Longrightarrow> map_of fs' = (map_of fs)(p \<mapsto> Dir)"
  by (auto simp: mkdir_def update_conv' split: option.splits node.splits if_splits)

lemma write_file_ok:
  "write_file e opn p c fs = (None, fs') \<Longrightarrow> map_of fs' = (map_of fs)(p \<mapsto> File c)"
  by (auto simp: write_file_def update_conv' split: if_splits option.splits)

lemma write_file_not_Dir: "write_file e opn p c fs = (None, fs') \<Longrightarrow> map_of fs p \<noteq> Some Dir"
  by (auto simp: write_file_def split: if_splits option.splits)

lemma write_file_failed:
  "write_file e opn p c fs = (Some x, fs') \<Longrightarrow>
   map_of fs' = map_of fs \<or>
   (\<exists>n. cut_short e opn p = Some n \<and> map_of fs' = (map_of fs)(p \<mapsto> File (cut n c)))"
  by (auto simp: write_file_def update_conv' split: if_splits option.splits)

lemma write_file_other:
  "write_file e opn p c fs = (x, fs') \<Longrightarrow> q \<noteq> p \<Longrightarrow> map_of fs' q = map_of fs q"
  by (auto simp: write_file_def update_conv' split: if_splits option.splits)

lemma write_file_Dir:
  "write_file e opn p c fs = (x, fs') \<Longrightarrow> (map_of fs' q = Some Dir) = (map_of fs q = Some Dir)"
  by (auto simp: write_file_def update_conv' split: if_splits option.splits)

lemma unlink_map: "unlink e p fs = Inr fs' \<Longrightarrow> map_of fs' = (map_of fs)(p := None)"
  by (auto simp: unlink_def delete_conv' split: option.splits node.splits if_splits)

lemma rmdir_map: "rmdir e p fs = Inr fs' \<Longrightarrow> map_of fs' = (map_of fs)(p := None)"
  by (auto simp: rmdir_def delete_conv' split: option.splits node.splits if_splits)

lemma rmdir_OSError: "rmdir e p fs = Inl x \<Longrightarrow> cls x = OSError"
  by (auto simp: rmdir_def os_error_def split: option.splits node.splits if_splits)

lemma children_iff: "q \<in> set (children fs d) \<longleftrightarrow> inside d q \<and> map_of fs q \<noteq> None"
proof -
  have "map_of fs q \<noteq> None \<longleftrightarrow> q \<in> fst ` set fs" by (simp add: map_of_eq_None_iff)
  then show ?thesis by (simp add: children_def inside_def conj_commute)
qed

lemma children_empty_iff: "children fs d = [] \<longleftrightarrow> (\<forall>q. inside d q \<longrightarrow> map_of fs q = None)"
proof -
  have "children fs d = [] \<longleftrightarrow> (\<forall>q. q \<notin> set (children fs d))"
  proof
    assume "children fs d = []"
    then show "\<forall>q. q \<notin> set (children fs d)" by simp
  next
    assume a: "\<forall>q. q \<notin> set (children fs d)"
    show "children fs d = []"
    proof (cases "children fs d")
      case Nil
      then show ?thesis .
    next
      case (Cons x xs)
      then have "x \<in> set (children fs d)" by simp
      with a show ?thesis by blast
    qed
  qed
  then show ?thesis by (simp add: children_iff)
qed

lemma inside_not_self: "inside d q \<Longrightarrow> q \<noteq> d"
proof
  assume i: "inside d q" and "q = d"
  then have "butlast q = q" by (simp add: inside_def)
  then have "length (butlast q) = length q" by simp
  then have "length q - 1 = length q" by (simp only: length_butlast)
  moreover have "0 < length q" using i by (simp add: inside_def)
  ultimately show False by arith
qed

lemma inside_child: "inside d (d @ [n])"
  by (simp add: inside_def)

lemma with_name_same_length: "with_name p n = Inr d \<Longrightarrow> length d = length p"
  by (auto simp: with_name_def split: if_splits)

lemma with_name_not_inside: "with_name p n = Inr d \<Longrightarrow> \<not> inside d p"
proof
  assume w: "with_name p n = Inr d" and i: "inside d p"
  from i have "length d = length p - 1" by (auto simp: inside_def)
  moreover from i have "p \<noteq> []" by (simp add: inside_def)
  ultimately show False using with_name_same_length [OF w] by (cases p) auto
qed


subsection \<open>The table extractor appends table blocks\<close>

lemma copy_tables_append:
  "copy_tables ts (a @ b) = (case copy_tables ts b of (x, d) \<Rightarrow> (x, a @ d))"
  by (induction ts arbitrary: b) (auto split: option.splits sum.splits prod.splits)

lemma copy_tables_blocks: "copy_tables ts b = (x, d) \<Longrightarrow> \<exists>gs. d = b @ map Table gs"
proof (induction ts arbitrary: b)
  case Nil
  then have "d = b @ map Table []" by simp
  then show ?case by blast
next
  case (Cons table rest)
  show ?case
  proof (cases table)
    case (Inl y)
    then have "d = b @ map Table []" using Cons.prems by simp
    then show ?thesis by blast
  next
    case (Inr data)
    show ?thesis
    proof (cases "copy_table data")
      case None
      then show ?thesis using Cons Inr by simp
    next
      case (Some r)
      obtain y t where r: "r = (y, t)" by (cases r)
      show ?thesis
      proof (cases y)
        case None
        then have "copy_tables rest (b @ [Table t]) = (x, d)"
          using Cons.prems Inr Some r by simp
        from Cons.IH [OF this] obtain gs where "d = (b @ [Table t]) @ map Table gs" by blast
        then have "d = b @ map Table (t # gs)" by simp
        then show ?thesis by blast
      next
        case (Some z)
        then have "d = b @ map Table [t]"
          using Cons.prems Inr \<open>copy_table data = Some r\<close> r by simp
        then show ?thesis by blast
      qed
    qed
  qed
qed

lemma extract_tables_append:
  "extract_tables pg doc = (case extract_tables pg [] of (x, d) \<Rightarrow> (x, doc @ d))"
  using copy_tables_append [of _ doc "[]"]
  by (auto simp: extract_tables_def split: sum.splits)

lemma extract_tables_blocks:
  "extract_tables pg doc = (None, d) \<Longrightarrow>
   d = doc @ table_blocks pg \<and> fst (extract_tables pg []) = None"
  using extract_tables_append [of pg doc]
  by (auto simp: table_blocks_def split: prod.splits option.splits)

lemma extract_tables_ok:
  "fst (extract_tables pg []) = None \<Longrightarrow> extract_tables pg doc = (None, doc @ table_blocks pg)"
  using extract_tables_append [of pg doc]
  by (auto simp: table_blocks_def split: prod.splits option.splits)

lemma table_blocks_tables: "\<exists>gs. table_blocks pg = map Table gs"
proof (cases "extract_tables pg []")
  case (Pair x d)
  show ?thesis
  proof (cases x)
    case None
    have "\<exists>gs. d = [] @ map Table gs"
    proof (cases "find_tables pg")
      case (Inl y)
      then have "d = [] @ map Table []" using Pair by (simp add: extract_tables_def split: if_splits)
      then show ?thesis by blast
    next
      case (Inr ts)
      then have "copy_tables ts [] = (x, d)" using Pair by (simp add: extract_tables_def)
      then show ?thesis by (rule copy_tables_blocks)
    qed
    then show ?thesis using Pair None by (simp add: table_blocks_def)
  next
    case (Some y)
    then have "table_blocks pg = map Table []" using Pair by (simp add: table_blocks_def)
    then show ?thesis by blast
  qed
qed

subsection \<open>The image extractor\<close>

lemma add_picture_written:
  "map_of fs p = Some (File (Raw b)) \<Longrightarrow>
   snd (add_picture e fs p picture_width doc) = doc @ [image_block e b]"
  by (simp add: add_picture_def image_block_def)

lemma extract_one_image_cases:
  assumes "extract_one_image e pg td xref doc fs = (x, d, fs')"
  obtains
    (unresolved) y where "extract_image pg xref = Inl y" "x = Some y" "d = doc" "fs' = fs"
  | (unwritten) b y where "extract_image pg xref = Inr b"
      "write_bytes e (td @ [base_name xref]) b fs = (Some y, fs')" "x = Some y" "d = doc"
  | (written) b where "extract_image pg xref = Inr b"
      "write_bytes e (td @ [base_name xref]) b fs = (None, fs')" "x = None"
      "d = doc @ [image_block e b]"
proof (cases "extract_image pg xref")
  case (Inl y)
  then show ?thesis using assms unresolved by (auto simp: extract_one_image_def)
next
  case (Inr b)
  obtain y fs1 where w: "write_bytes e (td @ [base_name xref]) b fs = (y, fs1)"
    by (cases "write_bytes e (td @ [base_name xref]) b fs")
  show ?thesis
  proof (cases y)
    case None
    have rd: "map_of fs1 (td @ [base_name xref]) = Some (File (Raw b))"
      using w None write_file_ok [of e WriteBytes _ "Raw b" fs fs1] by (simp add: write_bytes_def)
    show ?thesis
      using assms Inr w None add_picture_written [OF rd] written
      by (simp add: extract_one_image_def Let_def)
  next
    case (Some z)
    then show ?thesis using assms Inr w unwritten by (auto simp: extract_one_image_def Let_def)
  qed
qed

lemma extract_one_image_fs:
  assumes "extract_one_image e pg td xref doc fs = (x, d, fs')"
  shows "\<not> inside td q \<Longrightarrow> map_of fs' q = map_of fs q"
    and "(map_of fs' q = Some Dir) = (map_of fs q = Some Dir)"
proof -
  have ne: "q \<noteq> td @ [base_name xref]" if "\<not> inside td q"
    using that inside_child by metis
  show "\<not> inside td q \<Longrightarrow> map_of fs' q = map_of fs q"
    using assms
    by (cases rule: extract_one_image_cases)
      (auto simp: write_bytes_def dest: write_file_other [OF _ ne])
  show "(map_of fs' q = Some Dir) = (map_of fs q = Some Dir)"
    using assms
    by (cases rule: extract_one_image_cases) (auto simp: write_bytes_def dest: write_file_Dir)
qed

lemma extract_images_from_fs:
  "extract_images_from e pg td xs doc fs = (x, d, fs') \<Longrightarrow>
   (\<not> inside td q \<longrightarrow> map_of fs' q = map_of fs q) \<and>
   ((map_of fs' q = Some Dir) = (map_of fs q = Some Dir))"
proof (induction xs arbitrary: doc fs)
  case Nil
  then show ?case by simp
next
  case (Cons xref xs)
  obtain y d1 fs1 where one: "extract_one_image e pg td xref doc fs = (y, d1, fs1)"
    by (cases "extract_one_image e pg td xref doc fs") auto
  note step = extract_one_image_fs [OF one, of q]
  show ?case
  proof (cases y)
    case None
    then have "extract_images_from e pg td xs d1 fs1 = (x, d, fs')"
      using Cons.prems one by simp
    from Cons.IH [OF this] show ?thesis using step by simp
  next
    case (Some z)
    then have "fs' = fs1" using Cons.prems one by simp
    then show ?thesis using step by simp
  qed
qed

lemma extract_images_from_doc:
  "extract_images_from e pg td xs doc fs = (None, d, fs') \<Longrightarrow>
   d = doc @ image_blocks e pg xs \<and> list_all (\<lambda>xref. isl (extract_image pg xref) = False) xs"
proof (induction xs arbitrary: doc fs)
  case Nil
  then show ?case by (simp add: image_blocks_def)
next
  case (Cons xref xs)
  obtain y d1 fs1 where one: "extract_one_image e pg td xref doc fs = (y, d1, fs1)"
    by (cases "extract_one_image e pg td xref doc fs") auto
  then have y: "y = None" using Cons.prems by (cases y) auto
  from one obtain b where b: "extract_image pg xref = Inr b" and d1: "d1 = doc @ [image_block e b]"
    by (cases rule: extract_one_image_cases) (use y in auto)
  have "extract_images_from e pg td xs d1 fs1 = (None, d, fs')"
    using Cons.prems one y by simp
  from Cons.IH [OF this] show ?case using b d1 by (simp add: image_blocks_def)
qed

lemma extract_images_from_ok:
  "is_dir fs td \<Longrightarrow> list_all (transferable e pg td fs) xs \<Longrightarrow>
   \<exists>fs'. extract_images_from e pg td xs doc fs = (None, doc @ image_blocks e pg xs, fs')"
proof (induction xs arbitrary: doc fs)
  case Nil
  then show ?case by (simp add: image_blocks_def)
next
  case (Cons x xs)
  let ?p = "td @ [base_name x]"
  from Cons.prems(2) have tx: "transferable e pg td fs x" by simp
  then obtain b where b: "extract_image pg x = Inr b"
    by (cases "extract_image pg x") (auto simp: transferable_def)
  let ?fs1 = "AList.update ?p (File (Raw b)) fs"
  have w: "write_bytes e ?p b fs = (None, ?fs1)"
    using tx Cons.prems(1) by (simp add: write_bytes_def write_file_def transferable_def)
  have m: "map_of ?fs1 = (map_of fs)(?p \<mapsto> File (Raw b))" by (simp add: update_conv')
  have d1: "is_dir ?fs1 td" using Cons.prems(1) m by (auto simp: is_dir_def)
  have "transferable e pg td ?fs1 y" if "transferable e pg td fs y" for y
    using that m by (auto simp: transferable_def)
  then have l1: "list_all (transferable e pg td ?fs1) xs"
    using Cons.prems(2) by (auto simp: list_all_iff)
  have rd: "map_of ?fs1 ?p = Some (File (Raw b))" using m by simp
  have one: "extract_one_image e pg td x doc fs = (None, doc @ [image_block e b], ?fs1)"
    using b w add_picture_written [OF rd] by (simp add: extract_one_image_def Let_def)
  from Cons.IH [OF d1 l1, of "doc @ [image_block e b]"] obtain fs' where
    "extract_images_from e pg td xs (doc @ [image_block e b]) ?fs1 =
       (None, (doc @ [image_block e b]) @ image_blocks e pg xs, fs')" by blast
  then have "extract_images_from e pg td (x # xs) doc fs =
       (None, doc @ image_blocks e pg (x # xs), fs')"
    using one b by (simp add: image_blocks_def)
  then show ?case by blast
qed

lemma extract_images_fs:
  "extract_images e pg doc td fs = (x, d, fs') \<Longrightarrow>
   (\<not> inside td q \<longrightarrow> map_of fs' q = map_of fs q) \<and>
   ((map_of fs' q = Some Dir) = (map_of fs q = Some Dir))"
proof (cases "get_images pg")
  case (Inl y)
  assume "extract_images e pg doc td fs = (x, d, fs')"
  then show ?thesis using Inl by (simp add: extract_images_def)
next
  case (Inr xs)
  assume "extract_images e pg doc td fs = (x, d, fs')"
  then have "extract_images_from e pg td xs doc fs = (x, d, fs')"
    using Inr by (simp add: extract_images_def)
  then show ?thesis by (rule extract_images_from_fs)
qed

lemma extract_images_doc:
  "extract_images e pg doc td fs = (None, d, fs') \<Longrightarrow>
   d = doc @ image_blocks e pg (image_refs pg) \<and> isl (get_images pg) = False \<and>
   list_all (\<lambda>xref. isl (extract_image pg xref) = False) (image_refs pg)"
proof (cases "get_images pg")
  case (Inl y)
  assume "extract_images e pg doc td fs = (None, d, fs')"
  then show ?thesis using Inl by (simp add: extract_images_def)
next
  case (Inr xs)
  assume "extract_images e pg doc td fs = (None, d, fs')"
  then have "extract_images_from e pg td xs doc fs = (None, d, fs')"
    using Inr by (simp add: extract_images_def)
  from extract_images_from_doc [OF this] show ?thesis using Inr by (simp add: image_refs_def)
qed

subsection \<open>The page loop\<close>

lemma add_paragraph_ok:
  "add_paragraph text doc = (None, d) \<Longrightarrow> d = doc @ [Paragraph text] \<and> list_all xml_char text"
  by (auto simp: add_paragraph_def set_run_text_def Let_def split: if_splits)

lemma convert_page_cases:
  assumes "convert_page e inc td pg doc fs = (x, d, fs')"
  obtains
    (failed) y where "x = Some y" "fs' = fs"
  | (text_only) "x = None" "inc = False" "fs' = fs" "page_text_ok pg"
      "d = doc @ text_blocks pg @ table_blocks pg"
  | (images) "inc = True" "page_text_ok pg"
      "extract_images e pg (doc @ text_blocks pg @ table_blocks pg) td fs = (x, d, fs')"
proof (cases "get_text pg")
  case (Inl y)
  then show ?thesis using assms failed by (auto simp: convert_page_def)
next
  case raw: (Inr raw)
  obtain y doc1 where p: "(if strip raw \<noteq> [] then add_paragraph (strip raw) doc else (None, doc)) =
      (y, doc1)"
    by (cases "if strip raw \<noteq> [] then add_paragraph (strip raw) doc else (None, doc)")
  show ?thesis
  proof (cases y)
    case (Some z)
    then show ?thesis using assms raw p failed by (auto simp: convert_page_def Let_def)
  next
    case None
    have d1: "doc1 = doc @ text_blocks pg" and clean: "list_all xml_char (strip raw)"
      using p None raw add_paragraph_ok [of "strip raw" doc doc1]
      by (auto simp: text_blocks_def split: if_splits)
    obtain z doc2 where t: "extract_tables pg doc1 = (z, doc2)"
      by (cases "extract_tables pg doc1")
    show ?thesis
    proof (cases z)
      case (Some u)
      then show ?thesis using assms raw p None t failed by (auto simp: convert_page_def Let_def)
    next
      case tn: None
      have d2: "doc2 = doc @ text_blocks pg @ table_blocks pg"
        and t0: "fst (extract_tables pg []) = None"
        using extract_tables_blocks [of pg doc1 doc2] t tn d1 by simp_all
      have ok: "page_text_ok pg" using raw clean t0 by (simp add: page_text_ok_def)
      show ?thesis
      proof (cases inc)
        case True
        then show ?thesis using assms raw p None t tn d2 ok images
          by (simp add: convert_page_def Let_def)
      next
        case False
        then show ?thesis using assms raw p None t tn d2 ok text_only
          by (simp add: convert_page_def Let_def)
      qed
    qed
  qed
qed

lemma convert_page_fs:
  assumes "convert_page e inc td pg doc fs = (x, d, fs')"
  shows "(\<not> inside td q \<longrightarrow> map_of fs' q = map_of fs q) \<and>
         ((map_of fs' q = Some Dir) = (map_of fs q = Some Dir))"
  using assms
proof (cases rule: convert_page_cases)
  case images
  from extract_images_fs [OF images(3)] show ?thesis .
qed simp_all

lemma convert_page_doc:
  assumes "convert_page e inc td pg doc fs = (None, d, fs')"
  shows "d = doc @ page_blocks e inc pg \<and> page_readable inc pg"
  using assms
proof (cases rule: convert_page_cases)
  case text_only
  then show ?thesis by (simp add: page_blocks_def page_readable_def)
next
  case images
  from extract_images_doc [OF images(3)] images(1,2) show ?thesis
    by (simp add: page_blocks_def page_readable_def)
qed simp_all

lemma convert_page_no_images: "convert_page e False td pg doc fs = (x, d, fs') \<Longrightarrow> fs' = fs"
  by (erule convert_page_cases) simp_all

lemma convert_pages_fs:
  "convert_pages e inc td pages doc fs = (x, d, fs') \<Longrightarrow>
   (\<not> inside td q \<longrightarrow> map_of fs' q = map_of fs q) \<and>
   ((map_of fs' q = Some Dir) = (map_of fs q = Some Dir))"
proof (induction pages arbitrary: doc fs)
  case Nil
  then show ?case by simp
next
  case (Cons pg rest)
  obtain y d1 fs1 where one: "convert_page e inc td pg doc fs = (y, d1, fs1)"
    by (cases "convert_page e inc td pg doc fs") auto
  note step = convert_page_fs [OF one, of q]
  show ?case
  proof (cases y)
    case None
    then have "convert_pages e inc td rest d1 fs1 = (x, d, fs')"
      using Cons.prems one by simp
    from Cons.IH [OF this] show ?thesis using step by simp
  next
    case (Some z)
    then have "fs' = fs1" using Cons.prems one by simp
    then show ?thesis using step by simp
  qed
qed

lemma convert_pages_frame:
  "convert_pages e inc td pages doc fs = (x, d, fs') \<Longrightarrow> \<not> inside td q \<Longrightarrow>
   map_of fs' q = map_of fs q"
  using convert_pages_fs by blast

lemma convert_pages_Dir:
  "convert_pages e inc td pages doc fs = (x, d, fs') \<Longrightarrow>
   (map_of fs' q = Some Dir) = (map_of fs q = Some Dir)"
  using convert_pages_fs by blast

lemma convert_pages_doc:
  "convert_pages e inc td pages doc fs = (None, d, fs') \<Longrightarrow>
   d = doc @ document_of e inc pages \<and> list_all (page_readable inc) pages"
proof (induction pages arbitrary: doc fs)
  case Nil
  then show ?case by (simp add: document_of_def)
next
  case (Cons pg rest)
  obtain y d1 fs1 where one: "convert_page e inc td pg doc fs = (y, d1, fs1)"
    by (cases "convert_page e inc td pg doc fs") auto
  then have y: "y = None" using Cons.prems by (cases y) auto
  have pg: "d1 = doc @ page_blocks e inc pg \<and> page_readable inc pg"
    using one y convert_page_doc by simp
  have "convert_pages e inc td rest d1 fs1 = (None, d, fs')"
    using Cons.prems one y by simp
  from Cons.IH [OF this] show ?case using pg by (simp add: document_of_def)
qed

lemma convert_pages_no_images:
  "convert_pages e False td pages doc fs = (x, d, fs') \<Longrightarrow> fs' = fs"
proof (induction pages arbitrary: doc fs)
  case Nil
  then show ?case by simp
next
  case (Cons pg rest)
  obtain y d1 fs1 where one: "convert_page e False td pg doc fs = (y, d1, fs1)"
    by (cases "convert_page e False td pg doc fs") auto
  have f1: "fs1 = fs" using one by (rule convert_page_no_images)
  show ?case
  proof (cases y)
    case None
    then have "convert_pages e False td rest d1 fs1 = (x, d, fs')" using Cons.prems one by simp
    from Cons.IH [OF this] show ?thesis using f1 by simp
  next
    case (Some z)
    then show ?thesis using Cons.prems one f1 by simp
  qed
qed

subsection \<open>The cleanup\<close>

lemma unlink_quiet_map:
  "map_of (case unlink e p fs of Inl _ \<Rightarrow> fs | Inr fs' \<Rightarrow> fs') =
     (if (\<exists>c. map_of fs p = Some (File c)) \<and> \<not> denied e Unlink p
      then (map_of fs)(p := None) else map_of fs)"
  by (auto simp: unlink_def delete_conv' split: option.splits node.splits)

lemma unlink_all_map:
  "map_of (unlink_all e ps fs) q =
     (if q \<in> set ps \<and> (\<exists>c. map_of fs q = Some (File c)) \<and> \<not> denied e Unlink q
      then None else map_of fs q)"
proof (induction ps arbitrary: fs)
  case Nil
  then show ?case by simp
next
  case (Cons p ps)
  let ?fs1 = "case unlink e p fs of Inl _ \<Rightarrow> fs | Inr fs' \<Rightarrow> fs'"
  have "map_of (unlink_all e (p # ps) fs) q = map_of (unlink_all e ps ?fs1) q" by simp
  also have "\<dots> = (if q \<in> set ps \<and> (\<exists>c. map_of ?fs1 q = Some (File c)) \<and> \<not> denied e Unlink q
      then None else map_of ?fs1 q)" by (rule Cons.IH)
  finally show ?case by (auto simp: unlink_quiet_map)
qed

lemma cleanup_never_escapes: "fst (cleanup e td fs) = None"
  by (auto simp: cleanup_def Let_def rmdir_OSError split: sum.splits)

lemma cleanup_inside:
  "cleanup e td fs = (esc, fs') \<Longrightarrow> inside td q \<Longrightarrow>
   map_of fs' q =
     (if (\<exists>c. map_of fs q = Some (File c)) \<and> \<not> denied e Unlink q then None else map_of fs q)"
proof -
  assume c: "cleanup e td fs = (esc, fs')" and i: "inside td q"
  let ?fs1 = "unlink_all e (children fs td) fs"
  have q: "q \<noteq> td" using i by (rule inside_not_self)
  have m1: "map_of ?fs1 q =
     (if (\<exists>c. map_of fs q = Some (File c)) \<and> \<not> denied e Unlink q then None else map_of fs q)"
    using i by (auto simp: unlink_all_map children_iff)
  have "map_of fs' q = map_of ?fs1 q"
  proof (cases "rmdir e td ?fs1")
    case (Inl x)
    then have "fs' = ?fs1" using c by (simp add: cleanup_def Let_def split: if_splits)
    then show ?thesis by simp
  next
    case (Inr fs2)
    then have "fs' = fs2" using c by (simp add: cleanup_def Let_def)
    then show ?thesis using rmdir_map [OF Inr] q by simp
  qed
  then show ?thesis using m1 by simp
qed

lemma cleanup_frame:
  "cleanup e td fs = (esc, fs') \<Longrightarrow> \<not> inside td q \<Longrightarrow> q \<noteq> td \<Longrightarrow>
   map_of fs' q = map_of fs q"
proof -
  assume c: "cleanup e td fs = (esc, fs')" and i: "\<not> inside td q" and q: "q \<noteq> td"
  let ?fs1 = "unlink_all e (children fs td) fs"
  have m1: "map_of ?fs1 q = map_of fs q"
    using i by (simp add: unlink_all_map children_iff)
  have "map_of fs' q = map_of ?fs1 q"
  proof (cases "rmdir e td ?fs1")
    case (Inl x)
    then have "fs' = ?fs1" using c by (simp add: cleanup_def Let_def split: if_splits)
    then show ?thesis by simp
  next
    case (Inr fs2)
    then have "fs' = fs2" using c by (simp add: cleanup_def Let_def)
    then show ?thesis using rmdir_map [OF Inr] q by simp
  qed
  then show ?thesis using m1 by simp
qed

lemma cleanup_dir:
  "cleanup e td fs = (esc, fs') \<Longrightarrow> map_of fs' td = map_of fs td \<or> map_of fs' td = None"
proof -
  assume c: "cleanup e td fs = (esc, fs')"
  let ?fs1 = "unlink_all e (children fs td) fs"
  have "td \<notin> set (children fs td)" using inside_not_self by (auto simp: children_iff)
  then have m1: "map_of ?fs1 td = map_of fs td" by (simp add: unlink_all_map)
  show ?thesis
  proof (cases "rmdir e td ?fs1")
    case (Inl x)
    then have "fs' = ?fs1" using c by (simp add: cleanup_def Let_def split: if_splits)
    then show ?thesis using m1 by simp
  next
    case (Inr fs2)
    then have "fs' = fs2" using c by (simp add: cleanup_def Let_def)
    then show ?thesis using rmdir_map [OF Inr] by simp
  qed
qed

lemma cleanup_complete:
  assumes c: "cleanup e td fs = (esc, fs')"
    and d: "map_of fs td = Some Dir"
    and files: "\<And>q. inside td q \<Longrightarrow> \<not> denied e Unlink q \<and> map_of fs q \<noteq> Some Dir"
    and rm: "\<not> denied e RmDir td"
  shows "map_of fs' td = None"
proof -
  let ?fs1 = "unlink_all e (children fs td) fs"
  have "td \<notin> set (children fs td)" using inside_not_self by (auto simp: children_iff)
  then have m1: "map_of ?fs1 td = Some Dir" using d by (simp add: unlink_all_map)
  have gone: "map_of ?fs1 q = None" if iq: "inside td q" for q
  proof (cases "map_of fs q")
    case None
    then show ?thesis by (simp add: unlink_all_map)
  next
    case (Some n)
    have ok: "\<not> denied e Unlink q \<and> map_of fs q \<noteq> Some Dir" using iq by (rule files)
    then obtain c where "n = File c" using Some by (cases n) auto
    then show ?thesis using Some iq ok by (simp add: unlink_all_map children_iff)
  qed
  then have "children ?fs1 td = []" by (simp add: children_empty_iff)
  then have "rmdir e td ?fs1 = Inr (AList.delete td ?fs1)"
    using m1 rm by (simp add: rmdir_def)
  then have "fs' = AList.delete td ?fs1" using c by (simp add: cleanup_def Let_def)
  then show ?thesis by (simp add: delete_conv')
qed

subsection \<open>The body of the try block\<close>

lemma save_ok: "save e p doc fs = (None, fs') \<Longrightarrow> map_of fs' = (map_of fs)(p \<mapsto> File (Docx doc))"
  unfolding save_def by (rule write_file_ok)

lemma save_not_Dir: "save e p doc fs = (None, fs') \<Longrightarrow> map_of fs p \<noteq> Some Dir"
  unfolding save_def by (rule write_file_not_Dir)

lemma save_stopped:
  "save e p doc fs = (Some x, fs') \<Longrightarrow>
   map_of fs' = map_of fs \<or>
   (\<exists>n. cut_short e Save p = Some n \<and> map_of fs' = (map_of fs)(p \<mapsto> File (Partial doc n)))"
  unfolding save_def using write_file_failed [of e Save p "Docx doc" fs x fs'] by simp

lemma save_other: "save e p doc fs = (x, fs') \<Longrightarrow> q \<noteq> p \<Longrightarrow> map_of fs' q = map_of fs q"
  unfolding save_def by (rule write_file_other)

lemma save_Dir:
  "save e p doc fs = (x, fs') \<Longrightarrow> (map_of fs' q = Some Dir) = (map_of fs q = Some Dir)"
  unfolding save_def by (rule write_file_Dir)

lemma try_body_cases:
  assumes "try_body e pdf docx_path inc td fs0 = (r, fs1)"
  obtains
    (pages_failed) x doc where "convert_pages e inc td pdf [] fs0 = (Some x, doc, fs1)" "r = Inl x"
  | (save_failed) doc fsp x where "convert_pages e inc td pdf [] fs0 = (None, doc, fsp)"
      "save e docx_path doc fsp = (Some x, fs1)" "r = Inl x"
  | (saved) doc fsp where "convert_pages e inc td pdf [] fs0 = (None, doc, fsp)"
      "save e docx_path doc fsp = (None, fs1)" "r = Inr ()"
proof -
  obtain y doc fsp where p: "convert_pages e inc td pdf [] fs0 = (y, doc, fsp)"
    by (cases "convert_pages e inc td pdf [] fs0") auto
  show ?thesis
  proof (cases y)
    case (Some x)
    then show ?thesis using assms p pages_failed by (auto simp: try_body_def)
  next
    case None
    obtain z fs2 where s: "save e docx_path doc fsp = (z, fs2)"
      by (cases "save e docx_path doc fsp")
    show ?thesis
    proof (cases z)
      case (Some x)
      then show ?thesis using assms p None s save_failed by (auto simp: try_body_def)
    next
      case sv: None
      then show ?thesis using assms p None s saved by (auto simp: try_body_def)
    qed
  qed
qed

lemma try_body_frame:
  "try_body e pdf docx_path inc td fs0 = (r, fs1) \<Longrightarrow> \<not> inside td q \<Longrightarrow> q \<noteq> docx_path \<Longrightarrow>
   map_of fs1 q = map_of fs0 q"
proof (erule try_body_cases)
  fix x doc
  assume "\<not> inside td q" and "convert_pages e inc td pdf [] fs0 = (Some x, doc, fs1)"
  then show "map_of fs1 q = map_of fs0 q" using convert_pages_frame by blast
next
  fix doc fsp x
  assume n: "\<not> inside td q" "q \<noteq> docx_path"
    and p: "convert_pages e inc td pdf [] fs0 = (None, doc, fsp)"
    and s: "save e docx_path doc fsp = (Some x, fs1)"
  show "map_of fs1 q = map_of fs0 q"
    using save_other [OF s n(2)] convert_pages_frame [OF p n(1)] by simp
next
  fix doc fsp
  assume n: "\<not> inside td q" "q \<noteq> docx_path"
    and p: "convert_pages e inc td pdf [] fs0 = (None, doc, fsp)"
    and s: "save e docx_path doc fsp = (None, fs1)"
  show "map_of fs1 q = map_of fs0 q"
    using save_other [OF s n(2)] convert_pages_frame [OF p n(1)] by simp
qed

lemma try_body_Dir:
  "try_body e pdf docx_path inc td fs0 = (r, fs1) \<Longrightarrow>
   (map_of fs1 q = Some Dir) = (map_of fs0 q = Some Dir)"
proof (erule try_body_cases)
  fix x doc
  assume "convert_pages e inc td pdf [] fs0 = (Some x, doc, fs1)"
  then show "(map_of fs1 q = Some Dir) = (map_of fs0 q = Some Dir)" by (rule convert_pages_Dir)
next
  fix doc fsp x
  assume p: "convert_pages e inc td pdf [] fs0 = (None, doc, fsp)"
    and s: "save e docx_path doc fsp = (Some x, fs1)"
  show "(map_of fs1 q = Some Dir) = (map_of fs0 q = Some Dir)"
    using save_Dir [OF s, of q] convert_pages_Dir [OF p, of q] by simp
next
  fix doc fsp
  assume p: "convert_pages e inc td pdf [] fs0 = (None, doc, fsp)"
    and s: "save e docx_path doc fsp = (None, fs1)"
  show "(map_of fs1 q = Some Dir) = (map_of fs0 q = Some Dir)"
    using save_Dir [OF s, of q] convert_pages_Dir [OF p, of q] by simp
qed

text \<open>
  What a failing body leaves at the destination: the entry that was there, or, when
  the page loop was done and the writing of the package stopped part-way, that part.
\<close>

lemma try_body_fail:
  assumes "try_body e pdf docx_path inc td fs0 = (Inl x, fs1)" and "\<not> inside td docx_path"
  shows "map_of fs1 docx_path = map_of fs0 docx_path \<or>
         (list_all (page_readable inc) pdf \<and>
          (\<exists>n. cut_short e Save docx_path = Some n \<and>
             map_of fs1 docx_path = Some (File (Partial (document_of e inc pdf) n))))"
  using assms(1)
proof (cases rule: try_body_cases)
  case (pages_failed y doc)
  then show ?thesis using convert_pages_frame [OF pages_failed(1) assms(2)] by simp
next
  case (save_failed doc fsp y)
  have d: "doc = document_of e inc pdf" and rd: "list_all (page_readable inc) pdf"
    using convert_pages_doc [OF save_failed(1)] by simp_all
  have f: "map_of fsp docx_path = map_of fs0 docx_path"
    using convert_pages_frame [OF save_failed(1) assms(2)] .
  from save_stopped [OF save_failed(2)] show ?thesis using d rd f by auto
next
  case (saved doc fsp)
  then show ?thesis by simp
qed

lemma try_body_fail_dir:
  assumes "try_body e pdf docx_path inc td fs0 = (Inl x, fs1)"
    and "map_of fs0 docx_path = Some Dir"
  shows "map_of fs1 docx_path = Some Dir"
  using try_body_Dir [OF assms(1), of docx_path] assms(2) by simp

lemma try_body_ok:
  assumes "try_body e pdf docx_path inc td fs0 = (Inr u, fs1)"
  shows "map_of fs1 docx_path = Some (File (Docx (document_of e inc pdf)))"
    and "map_of fs0 docx_path \<noteq> Some Dir"
    and "list_all (page_readable inc) pdf"
proof -
  from assms obtain doc fsp where p: "convert_pages e inc td pdf [] fs0 = (None, doc, fsp)"
    and s: "save e docx_path doc fsp = (None, fs1)"
    by (rule try_body_cases) auto
  have d: "doc = document_of e inc pdf" and rd: "list_all (page_readable inc) pdf"
    using convert_pages_doc [OF p] by simp_all
  show "map_of fs1 docx_path = Some (File (Docx (document_of e inc pdf)))"
    using save_ok [OF s] d by simp
  show "map_of fs0 docx_path \<noteq> Some Dir"
    using save_not_Dir [OF s] convert_pages_Dir [OF p, of docx_path] by simp
  show "list_all (page_readable inc) pdf" by (rule rd)
qed

subsection \<open>The whole conversion\<close>

lemma convert_cases:
  assumes "convert_pdf_to_docx e pdf_path docx_path inc w = (r, w')"
  obtains
    (open_failed) x where "fitz_open e pdf_path = Inl x" "r = Inl x" "w' = w"
  | (name_failed) pdf x where "fitz_open e pdf_path = Inr pdf"
      "with_name docx_path (temp_name (clock e (ticks w))) = Inl x" "r = Inl x"
      "w' = w\<lparr>opened := opened w + 1, ticks := ticks w + 1\<rparr>"
  | (mkdir_failed) pdf td x where "fitz_open e pdf_path = Inr pdf"
      "with_name docx_path (temp_name (clock e (ticks w))) = Inr td"
      "mkdir e td (filesys w) = Inl x" "r = Inl x"
      "w' = w\<lparr>opened := opened w + 1, ticks := ticks w + 1\<rparr>"
  | (ran) pdf td fs0 fs1 fs2 where "fitz_open e pdf_path = Inr pdf"
      "with_name docx_path (temp_name (clock e (ticks w))) = Inr td"
      "mkdir e td (filesys w) = Inr fs0"
      "try_body e pdf docx_path inc td fs0 = (r, fs1)"
      "cleanup e td fs1 = (None, fs2)"
      "w' = w\<lparr>opened := opened w + 1, ticks := ticks w + 1, filesys := fs2,
               closed := closed w + 1\<rparr>"
proof (cases "fitz_open e pdf_path")
  case (Inl x)
  then show ?thesis using assms open_failed by (simp add: convert_pdf_to_docx_def)
next
  case op: (Inr pdf)
  show ?thesis
  proof (cases "with_name docx_path (temp_name (clock e (ticks w)))")
    case (Inl x)
    then show ?thesis using assms op name_failed
      by (simp add: convert_pdf_to_docx_def Let_def)
  next
    case wn: (Inr td)
    show ?thesis
    proof (cases "mkdir e td (filesys w)")
      case (Inl x)
      then show ?thesis using assms op wn mkdir_failed
        by (simp add: convert_pdf_to_docx_def Let_def)
    next
      case mk: (Inr fs0)
      obtain rb fs1 where tb: "try_body e pdf docx_path inc td fs0 = (rb, fs1)"
        by (cases "try_body e pdf docx_path inc td fs0")
      obtain esc fs2 where cl: "cleanup e td fs1 = (esc, fs2)"
        by (cases "cleanup e td fs1")
      have "esc = None" using cleanup_never_escapes [of e td fs1] cl by simp
      then show ?thesis using assms op wn mk tb cl ran
        by (simp add: convert_pdf_to_docx_def Let_def)
    qed
  qed
qed

lemma mkdir_before: "mkdir e p fs = Inr fs' \<Longrightarrow> map_of fs p = None \<or> map_of fs p = Some Dir"
  by (auto simp: mkdir_def split: option.splits node.splits)

text \<open>
  What a failing conversion leaves at the destination: what was there, or the part of
  the package that was written when the save stopped.
\<close>

lemma convert_failure_file:
  assumes "convert_pdf_to_docx e pdf_path docx_path inc w = (Inl x, w')"
  shows "file_at (filesys w') docx_path = file_at (filesys w) docx_path \<or>
         (\<exists>pdf n. fitz_open e pdf_path = Inr pdf \<and> list_all (page_readable inc) pdf \<and>
            cut_short e Save docx_path = Some n \<and>
            file_at (filesys w') docx_path = Some (Partial (document_of e inc pdf) n))"
  using assms
proof (cases rule: convert_cases)
  case (ran pdf td fs0 fs1 fs2)
  have ni: "\<not> inside td docx_path" using ran(2) by (rule with_name_not_inside)
  show ?thesis
  proof (cases "docx_path = td")
    case True
    have "map_of fs0 td = Some Dir" using mkdir_map [OF ran(3)] by simp
    then have "map_of fs1 td = Some Dir" using try_body_Dir [OF ran(4), of td] by simp
    then have "map_of fs2 td = Some Dir \<or> map_of fs2 td = None"
      using cleanup_dir [OF ran(5)] by auto
    then have "file_at fs2 td = None" by (auto simp: file_at_def)
    moreover have "file_at (filesys w) td = None"
      using mkdir_before [OF ran(3)] by (auto simp: file_at_def)
    ultimately show ?thesis using True ran(6) by simp
  next
    case False
    have c: "map_of fs2 docx_path = map_of fs1 docx_path"
      using ran(5) ni False by (rule cleanup_frame)
    have m: "map_of fs0 docx_path = map_of (filesys w) docx_path"
      using mkdir_map [OF ran(3)] False by simp
    from ran(4) have tb: "try_body e pdf docx_path inc td fs0 = (Inl x, fs1)" .
    from try_body_fail [OF tb ni] show ?thesis
    proof
      assume "map_of fs1 docx_path = map_of fs0 docx_path"
      then show ?thesis using c m ran(6) by (simp add: file_at_def)
    next
      assume "list_all (page_readable inc) pdf \<and>
          (\<exists>n. cut_short e Save docx_path = Some n \<and>
             map_of fs1 docx_path = Some (File (Partial (document_of e inc pdf) n)))"
      then obtain n where "list_all (page_readable inc) pdf"
        and "cut_short e Save docx_path = Some n"
        and "map_of fs1 docx_path = Some (File (Partial (document_of e inc pdf) n))"
        by blast
      then have "fitz_open e pdf_path = Inr pdf \<and> list_all (page_readable inc) pdf \<and>
            cut_short e Save docx_path = Some n \<and>
            file_at (filesys w') docx_path = Some (Partial (document_of e inc pdf) n)"
        using c ran(1,6) by (simp add: file_at_def)
      then show ?thesis by blast
    qed
  qed
qed simp_all

lemma convert_failure_keeps_file:
  assumes "convert_pdf_to_docx e pdf_path docx_path inc w = (Inl x, w')"
    and "cut_short e Save docx_path = None"
  shows "file_at (filesys w') docx_path = file_at (filesys w) docx_path"
  using convert_failure_file [OF assms(1)] assms(2) by auto

lemma convert_success_file:
  assumes "convert_pdf_to_docx e pdf_path docx_path inc w = (Inr u, w')"
  shows "\<exists>pdf. fitz_open e pdf_path = Inr pdf \<and> list_all (page_readable inc) pdf \<and>
           file_at (filesys w') docx_path = Some (Docx (document_of e inc pdf))"
  using assms
proof (cases rule: convert_cases)
  case (ran pdf td fs0 fs1 fs2)
  have ni: "\<not> inside td docx_path" using ran(2) by (rule with_name_not_inside)
  have "map_of fs0 td = Some Dir" using mkdir_map [OF ran(3)] by simp
  then have ne: "docx_path \<noteq> td" using try_body_ok(2) [OF ran(4)] by auto
  have "map_of fs2 docx_path = map_of fs1 docx_path"
    using ran(5) ni ne by (rule cleanup_frame)
  then have "file_at (filesys w') docx_path = Some (Docx (document_of e inc pdf))"
    using try_body_ok(1) [OF ran(4)] ran(6) by (simp add: file_at_def)
  then show ?thesis using ran(1) try_body_ok(3) [OF ran(4)] by simp
qed simp_all

lemma convert_closes_once_after_mkdir:
  assumes "fitz_open e pdf_path = Inr pdf"
    and "with_name docx_path (temp_name (clock e (ticks w))) = Inr td"
    and "mkdir e td (filesys w) = Inr fs0"
    and "convert_pdf_to_docx e pdf_path docx_path inc w = (r, w')"
  shows "opened w' = opened w + 1 \<and> closed w' = closed w + 1"
  using assms(4)
proof (cases rule: convert_cases)
  case (ran pdf' td' fs0' fs1 fs2)
  then show ?thesis by simp
qed (use assms in simp_all)

lemma convert_open_failure:
  "fitz_open e pdf_path = Inl x \<Longrightarrow>
   convert_pdf_to_docx e pdf_path docx_path inc w = (Inl x, w)"
  by (simp add: convert_pdf_to_docx_def)

subsection \<open>A page whose steps all go through is converted\<close>

lemma convert_page_ok:
  assumes "is_dir fs td" and "page_sound e td fs pg"
  shows "\<exists>fs'. convert_page e True td pg doc fs = (None, doc @ page_blocks e True pg, fs')"
proof -
  from assms(2) obtain raw where raw: "get_text pg = Inr raw"
    and clean: "list_all xml_char (strip raw)"
    by (cases "get_text pg") (auto simp: page_sound_def page_text_ok_def)
  from assms(2) have t0: "fst (extract_tables pg []) = None"
    by (simp add: page_sound_def page_text_ok_def)
  from assms(2) obtain xrefs where im: "get_images pg = Inr xrefs"
    and tr: "list_all (transferable e pg td fs) xrefs"
    by (cases "get_images pg") (auto simp: page_sound_def)
  let ?doc1 = "doc @ text_blocks pg"
  have p: "(if strip raw \<noteq> [] then add_paragraph (strip raw) doc else (None, doc)) = (None, ?doc1)"
    using raw set_run_text_clean [OF clean] by (simp add: add_paragraph_def text_blocks_def)
  have t: "extract_tables pg ?doc1 = (None, ?doc1 @ table_blocks pg)"
    using t0 by (rule extract_tables_ok)
  from extract_images_from_ok [OF assms(1) tr, of "?doc1 @ table_blocks pg"]
  obtain fs' where "extract_images_from e pg td xrefs (?doc1 @ table_blocks pg) fs =
      (None, (?doc1 @ table_blocks pg) @ image_blocks e pg xrefs, fs')"
    by blast
  then have "extract_images e pg (?doc1 @ table_blocks pg) td fs =
      (None, doc @ page_blocks e True pg, fs')"
    using im by (simp add: extract_images_def page_blocks_def image_refs_def)
  then have "convert_page e True td pg doc fs = (None, doc @ page_blocks e True pg, fs')"
    using raw p t by (simp add: convert_page_def Let_def)
  then show ?thesis by blast
qed

lemma page_sound_same_dirs:
  assumes "\<And>q. (map_of fs' q = Some Dir) = (map_of fs q = Some Dir)"
  shows "page_sound e td fs' pg = page_sound e td fs pg"
proof -
  have "transferable e pg td fs' = transferable e pg td fs"
    using assms by (simp add: transferable_def fun_eq_iff)
  then show ?thesis by (simp add: page_sound_def split: sum.splits)
qed

lemma convert_pages_ok:
  "is_dir fs td \<Longrightarrow> list_all (page_sound e td fs) pages \<Longrightarrow>
   \<exists>fs'. convert_pages e True td pages doc fs = (None, doc @ document_of e True pages, fs')"
proof (induction pages arbitrary: doc fs)
  case Nil
  then show ?case by (simp add: document_of_def)
next
  case (Cons pg rest)
  from Cons.prems(2) have s: "page_sound e td fs pg" by simp
  from convert_page_ok [OF Cons.prems(1) s, of doc] obtain fs1 where
    one: "convert_page e True td pg doc fs = (None, doc @ page_blocks e True pg, fs1)"
    by blast
  have dirs: "(map_of fs1 q = Some Dir) = (map_of fs q = Some Dir)" for q
    using convert_page_fs [OF one, of q] by simp
  have d1: "is_dir fs1 td" using Cons.prems(1) dirs [of td] by (simp add: is_dir_def)
  have "page_sound e td fs1 = page_sound e td fs"
    using page_sound_same_dirs [of fs1 fs e td, OF dirs] by (simp add: fun_eq_iff)
  then have l1: "list_all (page_sound e td fs1) rest" using Cons.prems(2) by simp
  from Cons.IH [OF d1 l1, of "doc @ page_blocks e True pg"] obtain fs' where
    "convert_pages e True td rest (doc @ page_blocks e True pg) fs1 =
       (None, (doc @ page_blocks e True pg) @ document_of e True rest, fs')"
    by blast
  then have "convert_pages e True td (pg # rest) doc fs =
       (None, doc @ document_of e True (pg # rest), fs')"
    using one by (simp add: document_of_def)
  then show ?case by blast
qed

subsection \<open>The document does not depend on the file system or the clock\<close>

lemma document_of_cong:
  "recognised e2 = recognised e1 \<Longrightarrow> document_of e2 inc pdf = document_of e1 inc pdf"
proof -
  assume r: "recognised e2 = recognised e1"
  have "image_block e2 = image_block e1" using r by (simp add: image_block_def fun_eq_iff)
  then have "image_blocks e2 = image_blocks e1"
    unfolding image_blocks_def by (simp cong: sum.case_cong)
  then have "page_blocks e2 inc = page_blocks e1 inc"
    unfolding page_blocks_def by (simp cong: if_cong)
  then show ?thesis by (simp add: document_of_def)
qed

subsection \<open>Refusals of the cleanup do not reach the result\<close>

lemma refusing_simps:
  "fitz_open (refusing e d) = fitz_open e"
  "recognised (refusing e d) = recognised e"
  "clock (refusing e d) = clock e"
  "cut_short (refusing e d) = cut_short e"
  "os_message (refusing e d) = os_message e"
  "denied (refusing e d) MkDir = denied e MkDir"
  "denied (refusing e d) WriteBytes = denied e WriteBytes"
  "denied (refusing e d) Save = denied e Save"
  by (simp_all add: refusing_def fun_eq_iff)

lemma os_error_refusing: "os_error (refusing e d) = os_error e"
  by (simp add: os_error_def refusing_simps fun_eq_iff)

lemma mkdir_refusing: "mkdir (refusing e d) p fs = mkdir e p fs"
  by (simp add: mkdir_def refusing_simps os_error_refusing split: option.splits node.splits)

lemma write_bytes_refusing: "write_bytes (refusing e d) p b fs = write_bytes e p b fs"
  by (simp add: write_bytes_def write_file_def refusing_simps os_error_refusing
      split: option.splits)

lemma save_refusing: "save (refusing e d) p doc fs = save e p doc fs"
  by (simp add: save_def write_file_def refusing_simps os_error_refusing split: option.splits)

lemma add_picture_refusing: "add_picture (refusing e d) fs p wd doc = add_picture e fs p wd doc"
  by (simp add: add_picture_def refusing_simps os_error_refusing
      split: option.splits node.splits content.splits)

lemma extract_one_image_refusing:
  "extract_one_image (refusing e d) pg td x doc fs = extract_one_image e pg td x doc fs"
  by (simp add: extract_one_image_def write_bytes_refusing add_picture_refusing Let_def
      split: sum.splits prod.splits option.splits)

lemma extract_images_from_refusing:
  "extract_images_from (refusing e d) pg td xs doc fs = extract_images_from e pg td xs doc fs"
  by (induction xs arbitrary: doc fs)
    (simp_all add: extract_one_image_refusing cong: option.case_cong prod.case_cong)

lemma convert_page_refusing:
  "convert_page (refusing e d) inc td pg doc fs = convert_page e inc td pg doc fs"
  by (simp add: convert_page_def extract_images_def extract_images_from_refusing Let_def
      split: sum.splits prod.splits option.splits)

lemma convert_pages_refusing:
  "convert_pages (refusing e d) inc td pages doc fs = convert_pages e inc td pages doc fs"
  by (induction pages arbitrary: doc fs)
    (simp_all add: convert_page_refusing cong: option.case_cong prod.case_cong)

lemma try_body_refusing:
  "try_body (refusing e d) pdf docx_path inc td fs = try_body e pdf docx_path inc td fs"
  by (simp add: try_body_def convert_pages_refusing save_refusing
      split: sum.splits prod.splits option.splits)

lemma convert_result:
  "fst (convert_pdf_to_docx e pdf_path docx_path inc w) =
     (case fitz_open e pdf_path of
        Inl x \<Rightarrow> Inl x
      | Inr pdf \<Rightarrow>
          (case with_name docx_path (temp_name (clock e (ticks w))) of
             Inl x \<Rightarrow> Inl x
           | Inr td \<Rightarrow>
               (case mkdir e td (filesys w) of
                  Inl x \<Rightarrow> Inl x
                | Inr fs0 \<Rightarrow> fst (try_body e pdf docx_path inc td fs0))))"
proof -
  obtain r w' where c: "convert_pdf_to_docx e pdf_path docx_path inc w = (r, w')"
    by (cases "convert_pdf_to_docx e pdf_path docx_path inc w")
  from c show ?thesis by (cases rule: convert_cases) (use c in simp_all)
qed

lemma convert_refusing_result:
  "fst (convert_pdf_to_docx (refusing e d) pdf_path docx_path inc w) =
   fst (convert_pdf_to_docx e pdf_path docx_path inc w)"
  by (simp add: convert_result refusing_simps mkdir_refusing try_body_refusing
      cong: sum.case_cong)

subsection \<open>What the cleanup leaves\<close>

lemma convert_leftover_file:
  assumes "convert_pdf_to_docx e pdf_path docx_path inc w = (r, w')"
    and "fitz_open e pdf_path = Inr pdf"
    and "with_name docx_path (temp_name (clock e (ticks w))) = Inr td"
    and "mkdir e td (filesys w) = Inr fs0"
    and "inside td q" and "map_of (filesys w') q = Some (File c)"
  shows "denied e Unlink q"
  using assms(1)
proof (cases rule: convert_cases)
  case (ran pdf' td' fs0' fs1 fs2)
  then have cl: "cleanup e td fs1 = (None, fs2)" using assms(3) by simp
  have "map_of fs2 q = Some (File c)" using ran(6) assms(6) by simp
  then show ?thesis using cleanup_inside [OF cl assms(5)] by (auto split: if_splits)
qed (use assms in simp_all)

lemma convert_removes_temp_dir:
  assumes "convert_pdf_to_docx e pdf_path docx_path inc w = (r, w')"
    and "fitz_open e pdf_path = Inr pdf"
    and "with_name docx_path (temp_name (clock e (ticks w))) = Inr td"
    and "mkdir e td (filesys w) = Inr fs0"
    and files: "\<And>q. inside td q \<Longrightarrow> \<not> denied e Unlink q \<and> map_of (filesys w) q \<noteq> Some Dir"
    and rm: "\<not> denied e RmDir td"
  shows "map_of (filesys w') td = None \<and> children (filesys w') td = []"
  using assms(1)
proof (cases rule: convert_cases)
  case (ran pdf' td' fs0' fs1 fs2)
  then have tb: "try_body e pdf docx_path inc td fs0 = (r, fs1)"
    and cl: "cleanup e td fs1 = (None, fs2)"
    using assms(2,3,4) by simp_all
  have d0: "map_of fs0 td = Some Dir" using mkdir_map [OF assms(4)] by simp
  then have d1: "map_of fs1 td = Some Dir" using try_body_Dir [OF tb, of td] by simp
  have f1: "\<not> denied e Unlink q \<and> map_of fs1 q \<noteq> Some Dir" if iq: "inside td q" for q
  proof -
    have "q \<noteq> td" using iq by (rule inside_not_self)
    then have "map_of fs0 q = map_of (filesys w) q" using mkdir_map [OF assms(4)] by simp
    then show ?thesis using files [OF iq] try_body_Dir [OF tb, of q] by simp
  qed
  have gone: "map_of fs2 td = None" using cl d1 f1 rm by (rule cleanup_complete)
  have "map_of fs2 q = None" if iq: "inside td q" for q
  proof (cases "map_of fs1 q")
    case None
    then show ?thesis using cleanup_inside [OF cl iq] by simp
  next
    case (Some n)
    then obtain c where "n = File c" using f1 [OF iq] by (cases n) auto
    then show ?thesis using Some f1 [OF iq] cleanup_inside [OF cl iq] by simp
  qed
  then have "children fs2 td = []" by (simp add: children_empty_iff)
  then show ?thesis using gone ran(6) by simp
qed (use assms in simp_all)

subsection \<open>The kinds of blocks a page contributes\<close>

lemma text_blocks_kinds:
  "filter text_or_table (text_blocks pg) = text_blocks pg"
  "filter is_picture (text_blocks pg) = []"
  by (simp_all add: text_blocks_def split: sum.splits)

lemma table_blocks_kinds:
  "filter text_or_table (table_blocks pg) = table_blocks pg"
  "filter is_picture (table_blocks pg) = []"
proof -
  obtain gs where g: "table_blocks pg = map Table gs" using table_blocks_tables by blast
  show "filter text_or_table (table_blocks pg) = table_blocks pg"
    unfolding g by (induction gs) simp_all
  show "filter is_picture (table_blocks pg) = []"
    unfolding g by (induction gs) simp_all
qed

lemma image_blocks_kinds: "filter text_or_table (image_blocks e pg xs) = []"
  by (induction xs) (simp_all add: image_blocks_def image_block_def split: sum.splits)

lemma image_blocks_pictures:
  "filter is_picture (image_blocks e pg xs) =
     map (\<lambda>b. Picture b picture_width) (filter (recognised e) (image_bytes pg xs))"
  by (induction xs)
    (simp_all add: image_blocks_def image_block_def image_bytes_def split: sum.splits)

lemma document_of_text_or_table:
  "filter text_or_table (document_of e inc pdf) = document_of e False pdf"
  by (induction pdf)
    (simp_all add: document_of_def page_blocks_def text_blocks_kinds table_blocks_kinds
      image_blocks_kinds)

lemma document_of_no_pictures: "filter is_picture (document_of e False pdf) = []"
  by (induction pdf)
    (simp_all add: document_of_def page_blocks_def text_blocks_kinds table_blocks_kinds)

lemma document_of_pictures:
  "filter is_picture (document_of e True pdf) =
     map (\<lambda>b. Picture b picture_width)
       (filter (recognised e) (concat (map (\<lambda>pg. image_bytes pg (image_refs pg)) pdf)))"
  by (induction pdf)
    (simp_all add: document_of_def page_blocks_def text_blocks_kinds table_blocks_kinds
      image_blocks_pictures)

subsection \<open>The name of the temporary directory\<close>

lemma digit_step: "(x::nat) div 10 = y div 10 \<Longrightarrow> x mod 10 = y mod 10 \<Longrightarrow> x = y"
proof -
  assume d: "x div 10 = y div 10" and m: "x mod 10 = y mod 10"
  have "x = 10 * (x div 10) + x mod 10" by simp
  also have "\<dots> = 10 * (y div 10) + y mod 10" using d m by simp
  also have "\<dots> = y" by simp
  finally show ?thesis .
qed

lemma two_digits_inj: "a < 100 \<Longrightarrow> b < 100 \<Longrightarrow> two_digits a = two_digits b \<Longrightarrow> a = b"
proof -
  assume a: "a < 100" and b: "b < 100" and eq: "two_digits a = two_digits b"
  from eq have 1: "a div 10 mod 10 = b div 10 mod 10" and 2: "a mod 10 = b mod 10"
    by (simp_all add: two_digits_def)
  have "a div 10 < 10" "b div 10 < 10" using a b by simp_all
  then have "a div 10 = b div 10" using 1 by simp
  then show "a = b" using 2 by (rule digit_step)
qed

lemma four_digits_inj:
  "a < 10000 \<Longrightarrow> b < 10000 \<Longrightarrow> four_digits a = four_digits b \<Longrightarrow> a = b"
proof -
  assume a: "a < 10000" and b: "b < 10000" and eq: "four_digits a = four_digits b"
  from eq have 1: "a div 1000 mod 10 = b div 1000 mod 10"
    and 2: "a div 100 mod 10 = b div 100 mod 10"
    and 3: "a div 10 mod 10 = b div 10 mod 10"
    and 4: "a mod 10 = b mod 10"
    by (simp_all add: four_digits_def)
  have "a div 1000 < 10" "b div 1000 < 10" using a b by simp_all
  then have 5: "a div 1000 = b div 1000" using 1 by simp
  have k1: "n div 100 div 10 = n div 1000" for n :: nat
  proof -
    have "n div 100 div 10 = n div (100 * 10)" by (rule div_mult2_eq [symmetric])
    then show ?thesis by simp
  qed
  have k2: "n div 10 div 10 = n div 100" for n :: nat
  proof -
    have "n div 10 div 10 = n div (10 * 10)" by (rule div_mult2_eq [symmetric])
    then show ?thesis by simp
  qed
  have 6: "a div 100 = b div 100"
  proof (rule digit_step)
    show "a div 100 div 10 = b div 100 div 10" using 5 by (simp only: k1)
    show "a div 100 mod 10 = b div 100 mod 10" by (rule 2)
  qed
  have 7: "a div 10 = b div 10"
  proof (rule digit_step)
    show "a div 10 div 10 = b div 10 div 10" using 6 by (simp only: k2)
    show "a div 10 mod 10 = b div 10 mod 10" by (rule 3)
  qed
  then show "a = b" using 4 by (rule digit_step)
qed

lemma strftime_eq_iff:
  assumes "valid_datetime t1" and "valid_datetime t2"
  shows "strftime t1 = strftime t2 \<longleftrightarrow>
     year t1 = year t2 \<and> month t1 = month t2 \<and> day t1 = day t2 \<and>
     hour t1 = hour t2 \<and> minute t1 = minute t2 \<and> second t1 = second t2"
proof
  assume eq: "strftime t1 = strftime t2"
  have len: "length (four_digits a) = 4" "length (two_digits a) = 2" for a
    by (simp_all add: four_digits_def two_digits_def)
  from eq have y: "four_digits (year t1) = four_digits (year t2)"
    and r1: "two_digits (month t1) @ two_digits (day t1) @ two_digits (hour t1) @
        two_digits (minute t1) @ two_digits (second t1) =
      two_digits (month t2) @ two_digits (day t2) @ two_digits (hour t2) @
        two_digits (minute t2) @ two_digits (second t2)"
    by (simp_all add: strftime_def len)
  from r1 have m: "two_digits (month t1) = two_digits (month t2)"
    and d: "two_digits (day t1) = two_digits (day t2)"
    and h: "two_digits (hour t1) = two_digits (hour t2)"
    and mi: "two_digits (minute t1) = two_digits (minute t2)"
    and s: "two_digits (second t1) = two_digits (second t2)"
    by (simp_all add: len)
  have b1: "year t1 < 10000" "month t1 < 100" "day t1 < 100" "hour t1 < 100"
    "minute t1 < 100" "second t1 < 100"
    using assms(1) by (simp_all add: valid_datetime_def)
  have b2: "year t2 < 10000" "month t2 < 100" "day t2 < 100" "hour t2 < 100"
    "minute t2 < 100" "second t2 < 100"
    using assms(2) by (simp_all add: valid_datetime_def)
  show "year t1 = year t2 \<and> month t1 = month t2 \<and> day t1 = day t2 \<and>
     hour t1 = hour t2 \<and> minute t1 = minute t2 \<and> second t1 = second t2"
    using four_digits_inj [OF b1(1) b2(1) y] two_digits_inj [OF b1(2) b2(2) m]
      two_digits_inj [OF b1(3) b2(3) d] two_digits_inj [OF b1(4) b2(4) h]
      two_digits_inj [OF b1(5) b2(5) mi] two_digits_inj [OF b1(6) b2(6) s]
    by simp
next
  assume "year t1 = year t2 \<and> month t1 = month t2 \<and> day t1 = day t2 \<and>
     hour t1 = hour t2 \<and> minute t1 = minute t2 \<and> second t1 = second t2"
  then show "strftime t1 = strftime t2" by (simp add: strftime_def)
qed

lemma temp_dir_eq_iff:
  assumes "with_name d1 (temp_name t1) = Inr p1" and "with_name d2 (temp_name t2) = Inr p2"
  shows "p1 = p2 \<longleftrightarrow> butlast d1 = butlast d2 \<and> strftime t1 = strftime t2"
  using assms by (auto simp: with_name_def temp_name_def split: if_splits)

lemma convert_new_dir:
  assumes "convert_pdf_to_docx e pdf_path docx_path inc w = (r, w')"
    and "map_of (filesys w') q = Some Dir" and "map_of (filesys w) q \<noteq> Some Dir"
  shows "with_name docx_path (temp_name (clock e (ticks w))) = Inr q"
  using assms(1)
proof (cases rule: convert_cases)
  case (ran pdf td fs0 fs1 fs2)
  have q2: "map_of fs2 q = Some Dir" using ran(6) assms(2) by simp
  have "q = td"
  proof (rule ccontr)
    assume ne: "q \<noteq> td"
    have "map_of fs1 q = Some Dir"
    proof (cases "inside td q")
      case True
      then show ?thesis using cleanup_inside [OF ran(5) True] q2 by (auto split: if_splits)
    next
      case False
      then show ?thesis using cleanup_frame [OF ran(5) False ne] q2 by simp
    qed
    then have "map_of fs0 q = Some Dir" using try_body_Dir [OF ran(4), of q] by simp
    then have "map_of (filesys w) q = Some Dir" using mkdir_map [OF ran(3)] ne by simp
    then show False using assms(3) by simp
  qed
  then show ?thesis using ran(2) by simp
qed (use assms in simp_all)

subsection \<open>The batch loop\<close>

lemma convert_single_eq:
  "convert_pdf_to_docx e p (dst_file g p) (include_imgs g) w = (r, w') \<Longrightarrow>
   convert_single e g w p =
     (g\<lparr>log := log g @
         (case r of
            Inl exc \<Rightarrow> [Dialog (ShowError (ascii ''Erro'') (failure_message p exc))]
          | Inr _ \<Rightarrow> [])\<rparr>, w')"
  by (cases r) (simp_all add: convert_single_def show_dialog_def)

lemma batch_results_cong:
  "dst_dir g' = dst_dir g \<Longrightarrow> include_imgs g' = include_imgs g \<Longrightarrow>
   batch_results e g' w ps = batch_results e g w ps"
  by (induction ps arbitrary: w) (simp_all add: dst_file_def split: prod.splits)

lemma batch_results_paths: "map fst (batch_results e g w ps) = ps"
  by (induction ps arbitrary: w) (simp_all split: prod.splits)

lemma convert_each_log:
  "convert_each e n idx ps g w = (g', w') \<Longrightarrow>
   log g' = log g @ concat (map (file_report n) (enumerate idx (batch_results e g w ps))) \<and>
   dst_dir g' = dst_dir g \<and> include_imgs g' = include_imgs g \<and>
   prog_value g' = (if ps = [] then prog_value g else idx + length ps - 1)"
proof (induction ps arbitrary: idx g w)
  case Nil
  then show ?case by simp
next
  case (Cons p ps)
  let ?g1 = "set_status g (file_status p idx n)"
  obtain r w1 where c: "convert_pdf_to_docx e p (dst_file g p) (include_imgs g) w = (r, w1)"
    by (cases "convert_pdf_to_docx e p (dst_file g p) (include_imgs g) w")
  have same: "dst_file ?g1 p = dst_file g p" "include_imgs ?g1 = include_imgs g"
    by (simp_all add: set_status_def dst_file_def)
  let ?shown = "case r of
      Inl exc \<Rightarrow> [Dialog (ShowError (ascii ''Erro'') (failure_message p exc))]
    | Inr _ \<Rightarrow> []"
  let ?g2 = "?g1\<lparr>log := log ?g1 @ ?shown\<rparr>"
  have s: "convert_single e ?g1 w p = (?g2, w1)"
    using c same convert_single_eq [of e p ?g1 w r w1] by simp
  let ?g3 = "update_progress ?g2 idx"
  have step: "convert_each e n (idx + 1) ps ?g3 w1 = (g', w')"
    using Cons.prems s by (simp add: Let_def)
  have keep: "dst_dir ?g3 = dst_dir g" "include_imgs ?g3 = include_imgs g"
    by (simp_all add: update_progress_def set_status_def)
  have res: "batch_results e ?g3 w1 ps = batch_results e g w1 ps"
    using keep by (rule batch_results_cong)
  have l3: "log ?g3 = log g @ file_report n (idx, p, r)"
    by (simp add: update_progress_def set_status_def file_report_def)
  have pv: "prog_value ?g3 = idx" by (simp add: update_progress_def)
  have br: "batch_results e g w (p # ps) = (p, r) # batch_results e g w1 ps"
    using c by simp
  note ih = Cons.IH [OF step]
  from ih have a: "log g' = log ?g3 @
      concat (map (file_report n) (enumerate (Suc idx) (batch_results e ?g3 w1 ps)))"
    by simp
  from ih have b: "dst_dir g' = dst_dir ?g3" "include_imgs g' = include_imgs ?g3"
    by simp_all
  from ih have v: "prog_value g' = (if ps = [] then prog_value ?g3 else idx + 1 + length ps - 1)"
    by simp
  have "log g' = log g @
      concat (map (file_report n) (enumerate idx (batch_results e g w (p # ps))))"
    unfolding br a res l3 by simp
  moreover have "dst_dir g' = dst_dir g" "include_imgs g' = include_imgs g"
    using b keep by simp_all
  moreover have "prog_value g' = idx + length (p # ps) - 1"
    using v pv by simp
  ultimately show ?case by simp
qed

lemma convert_all_pdfs_log:
  assumes "pdf_paths e (filesys w) (src_dir g) = paths" and "paths \<noteq> []"
  shows "log (fst (convert_all_pdfs e g w)) =
           log g @ [Status (start_status (length paths))] @
           concat (map (file_report (length paths)) (enumerate 1 (batch_results e g w paths))) @
           [Status (done_status (length paths)), Dialog success_info] \<and>
         prog_value (fst (convert_all_pdfs e g w)) = length paths"
proof -
  let ?n = "length paths"
  let ?g1 = "set_status (g\<lparr>prog_maximum := ?n, prog_value := 0\<rparr>) (start_status ?n)"
  obtain g2 w2 where ce: "convert_each e ?n 1 paths ?g1 w = (g2, w2)"
    by (cases "convert_each e ?n 1 paths ?g1 w")
  have keep: "dst_dir ?g1 = dst_dir g" "include_imgs ?g1 = include_imgs g"
    by (simp_all add: set_status_def)
  have res: "batch_results e ?g1 w paths = batch_results e g w paths"
    using keep by (rule batch_results_cong)
  have l1: "log ?g1 = log g @ [Status (start_status ?n)]" by (simp add: set_status_def)
  from convert_each_log [OF ce] res l1 assms(2)
  have l2: "log g2 = log g @ [Status (start_status ?n)] @
      concat (map (file_report ?n) (enumerate 1 (batch_results e g w paths)))"
    and pv: "prog_value g2 = ?n" by simp_all
  have whole: "convert_all_pdfs e g w =
      (show_dialog (set_status g2 (done_status ?n)) success_info, w2)"
    using assms ce by (simp add: convert_all_pdfs_def Let_def)
  show ?thesis using l2 pv by (simp add: whole show_dialog_def set_status_def)
qed

subsection \<open>Discovering the input files\<close>

lemma matches_pdf_exact: "matches_pdf False name \<longleftrightarrow> (\<exists>s. name = s @ ascii ''.pdf'')"
proof
  assume m: "matches_pdf False name"
  then have "drop (length name - 4) name = ascii ''.pdf''" by (simp add: matches_pdf_def Let_def)
  then have "name = take (length name - 4) name @ ascii ''.pdf''"
    by (metis append_take_drop_id)
  then show "\<exists>s. name = s @ ascii ''.pdf''" by blast
next
  assume "\<exists>s. name = s @ ascii ''.pdf''"
  then obtain s where "name = s @ ascii ''.pdf''" by blast
  then show "matches_pdf False name" by (simp add: matches_pdf_def Let_def ascii_def)
qed

lemma children_distinct: "distinct (children fs d)"
  by (simp add: children_def)

lemma pdf_paths_posix:
  assumes "windows e = False"
  shows "set (pdf_paths e fs d) =
           {p. inside d p \<and> map_of fs p \<noteq> None \<and> (\<exists>s. last p = s @ ascii ''.pdf'')}"
    and "sorted (pdf_paths e fs d)" and "distinct (pdf_paths e fs d)"
proof -
  have key: "path_key e = (\<lambda>p. p)" using assms by (simp add: path_key_def fun_eq_iff)
  show "set (pdf_paths e fs d) =
           {p. inside d p \<and> map_of fs p \<noteq> None \<and> (\<exists>s. last p = s @ ascii ''.pdf'')}"
    using assms by (auto simp: pdf_paths_def glob_pdf_def children_iff matches_pdf_exact)
  show "sorted (pdf_paths e fs d)"
    using sorted_sort_key [of "\<lambda>p. p" "glob_pdf e fs d"] by (simp add: pdf_paths_def key)
  show "distinct (pdf_paths e fs d)"
    by (simp add: pdf_paths_def glob_pdf_def children_distinct)
qed

subsection \<open>The sample run\<close>

lemmas sample_defs = sample_env_def sample_world_def sample_page_def sample_time_def
  sample_document_def sample_message_def

lemmas run_defs = convert_pdf_to_docx_def try_body_def cleanup_def convert_page_def
  extract_images_def extract_one_image_def extract_tables_def copy_table_def add_table_def
  set_cell_text_def add_paragraph_def set_run_text_def xml_char_def is_surrogate_def
  cell_text_def strip_def isspace_def with_name_def mkdir_def write_bytes_def write_file_def
  save_def unlink_def rmdir_def children_def is_dir_def add_picture_def os_error_def
  parent_failure_def temp_name_def strftime_def two_digits_def four_digits_def base_name_def
  ascii_def Let_def

lemma sample_run:
  "convert_pdf_to_docx sample_env [ascii ''in'', ascii ''a.pdf''] [ascii ''out'', ascii ''a.docx'']
     True sample_world =
   (Inr (), \<lparr>filesys = [([ascii ''out''], Dir),
                         ([ascii ''out'', ascii ''a.docx''], File (Docx (sample_document True)))],
             ticks = 1, opened = 1, closed = 1\<rparr>)"
  by (simp add: sample_defs run_defs str_nat.simps)

lemma sample_run_again:
  "convert_pdf_to_docx sample_env [ascii ''in'', ascii ''a.pdf''] [ascii ''out'', ascii ''a.docx'']
     True
     \<lparr>filesys = [([ascii ''out''], Dir),
                 ([ascii ''out'', ascii ''a.docx''], File (Docx (sample_document True)))],
      ticks = 1, opened = 1, closed = 1\<rparr> =
   (Inr (), \<lparr>filesys = [([ascii ''out''], Dir),
                         ([ascii ''out'', ascii ''a.docx''], File (Docx (sample_document True)))],
             ticks = 2, opened = 2, closed = 2\<rparr>)"
  by (simp add: sample_defs run_defs str_nat.simps)

lemma sample_run_without_images:
  "convert_pdf_to_docx sample_env [ascii ''in'', ascii ''a.pdf''] [ascii ''out'', ascii ''a.docx'']
     False sample_world =
   (Inr (), \<lparr>filesys = [([ascii ''out''], Dir),
                         ([ascii ''out'', ascii ''a.docx''], File (Docx (sample_document False)))],
             ticks = 1, opened = 1, closed = 1\<rparr>)"
  by (simp add: sample_defs run_defs)


lemma sample_document_of:
  "document_of sample_env include_images [sample_page] = sample_document include_images"
  by (simp add: document_of_def page_blocks_def text_blocks_def table_blocks_def
      image_blocks_def image_block_def image_refs_def sample_defs extract_tables_def
      copy_table_def add_table_def set_cell_text_def set_run_text_def xml_char_def
      is_surrogate_def cell_text_def strip_def isspace_def ascii_def)


lemma sample_run_again_full_disk:
  "convert_pdf_to_docx full_disk_env [ascii ''in'', ascii ''a.pdf'']
     [ascii ''out'', ascii ''a.docx''] True
     \<lparr>filesys = [([ascii ''out''], Dir),
                 ([ascii ''out'', ascii ''a.docx''], File (Docx (sample_document True)))],
      ticks = 1, opened = 1, closed = 1\<rparr> =
   (Inl (Exn OSError (ascii ''[Errno 28] No space left on device: '' @ [39] @
                      ascii ''out/a.docx'' @ [39])),
    \<lparr>filesys = [([ascii ''out''], Dir),
                ([ascii ''out'', ascii ''a.docx''], File (Partial (sample_document True) 100))],
     ticks = 2, opened = 2, closed = 2\<rparr>)"
  by (simp add: full_disk_env_def sample_defs run_defs str_nat.simps)

lemma sample_run_broken_image:
  "convert_pdf_to_docx broken_env [ascii ''in'', ascii ''a.pdf'']
     [ascii ''out'', ascii ''a.docx''] True sample_world =
   (Inl (Exn OtherException ([39] @ ascii ''image'' @ [39])),
    \<lparr>filesys = [([ascii ''out''], Dir)], ticks = 1, opened = 1, closed = 1\<rparr>)"
  by (simp add: broken_env_def broken_page_def sample_defs run_defs str_nat.simps)

lemma sample_temp_dir:
  "with_name [ascii ''out'', ascii ''a.docx''] (temp_name (clock sample_env (ticks sample_world))) =
     Inr [ascii ''out'', ascii ''_tmp_imgs_20240517093015'']"
  by (simp add: sample_defs with_name_def temp_name_def strftime_def two_digits_def
      four_digits_def ascii_def)

lemmas batch_defs = batch_env_def batch_world_def batch_gui_def

lemma batch_paths:
  "pdf_paths batch_env (filesys batch_world) (src_dir batch_gui) =
     [[ascii ''in'', ascii ''a.pdf''], [ascii ''in'', ascii ''b.pdf'']]"
  by (simp add: batch_defs sample_env_def pdf_paths_def glob_pdf_def children_def
      matches_pdf_def path_key_def ascii_def Let_def)

lemma batch_outcomes:
  "batch_results batch_env batch_gui batch_world
     [[ascii ''in'', ascii ''a.pdf''], [ascii ''in'', ascii ''b.pdf'']] =
   [([ascii ''in'', ascii ''a.pdf''], Inl (Exn OtherException (ascii ''cannot open''))),
    ([ascii ''in'', ascii ''b.pdf''], Inr ())]"
  by (simp add: batch_defs sample_defs run_defs dst_file_def stem_def str_nat.simps)

lemma sample_run_locked:
  "convert_pdf_to_docx locked_env [ascii ''in'', ascii ''a.pdf''] [ascii ''out'', ascii ''a.docx'']
     True sample_world =
   (Inr (),
    \<lparr>filesys = [([ascii ''out''], Dir),
                ([ascii ''out'', ascii ''_tmp_imgs_20240517093015''], Dir),
                ([ascii ''out'', ascii ''_tmp_imgs_20240517093015'', ascii ''img_7.png''],
                 File (Raw [137, 7])),
                ([ascii ''out'', ascii ''a.docx''], File (Docx (sample_document True)))],
     ticks = 1, opened = 1, closed = 1\<rparr>)"
  by (simp add: locked_env_def refusing_def sample_defs run_defs str_nat.simps)

lemma sample_mkdir:
  "mkdir sample_env [ascii ''out'', ascii ''_tmp_imgs_20240517093015''] (filesys sample_world) =
     Inr [([ascii ''out''], Dir), ([ascii ''out'', ascii ''_tmp_imgs_20240517093015''], Dir)]"
  by (simp add: sample_defs mkdir_def is_dir_def ascii_def)

lemma locked_env_setup:
  "fitz_open locked_env [ascii ''in'', ascii ''a.pdf''] = Inr [sample_page]"
  "with_name [ascii ''out'', ascii ''a.docx''] (temp_name (clock locked_env (ticks sample_world))) =
     Inr [ascii ''out'', ascii ''_tmp_imgs_20240517093015'']"
  "mkdir locked_env [ascii ''out'', ascii ''_tmp_imgs_20240517093015''] (filesys sample_world) =
     Inr [([ascii ''out''], Dir), ([ascii ''out'', ascii ''_tmp_imgs_20240517093015''], Dir)]"
  "clock locked_env (ticks sample_world) = sample_time"
  by (simp_all add: locked_env_def refusing_simps mkdir_refusing sample_temp_dir sample_mkdir)
    (simp_all add: sample_env_def sample_world_def sample_time_def)

section \<open>Claims about the Table Extractor\<close>




text \<open>
  It fails as well on a cell whose text holds a control character: python-docx raises
  \<open>ValueError\<close> on the vertical tab between \<open>a\<close> and \<open>b\<close>, and the cell stays empty.
\<close>

lemma extract_tables_control_character:
  "extract_tables
     \<lparr>get_text = Inr [],
      find_tables = Inr [Inr [[Some (ascii ''a'' @ [11] @ ascii ''b'')]]],
      get_images = Inr [], extract_image = (\<lambda>xref. Inr [])\<rparr> [] =
   (Some (Exn ValueError
      (ascii ''All strings must be XML compatible: Unicode or ASCII, no NULL bytes or control characters'')),
    [Table \<lparr>nrows = 1, ncols = 1, cells = [[]]\<rparr>])"
  by (simp add: extract_tables_def copy_table_def add_table_def set_cell_text_def
      set_run_text_def xml_error_def xml_char_def is_surrogate_def is_break_def cell_text_def
      strip_def isspace_def ascii_def Let_def)

section \<open>Claims about the Conversion Engine\<close>




text \<open>
  C9. Converting the same source twice to the same destination, with a parser and an
  image recogniser that answer the second time as the first: after the first run the
  destination holds the document of all pages, and when the second run returns normally
  the destination holds the same structural content again, the same sequence of
  paragraph, table and image blocks, written over the first. The second run starts from
  the state the first one left, at a later reading of the clock. When the second run
  fails instead, the file of the first run stays, unless the failure is a save that
  stopped part-way, which leaves a part of the package of the same document.
\<close>

theorem convert_twice_same_content:
  assumes "fitz_open e2 = fitz_open e1" and "recognised e2 = recognised e1"
    and "convert_pdf_to_docx e1 pdf_path docx_path include_images w = (Inr (), w1)"
    and "convert_pdf_to_docx e2 pdf_path docx_path include_images w1 = (r2, w2)"
  shows "case fitz_open e1 pdf_path of
           Inl y \<Rightarrow> False
         | Inr pdf \<Rightarrow>
             file_at (filesys w1) docx_path = Some (Docx (document_of e1 include_images pdf)) \<and>
             (case r2 of
                Inr u \<Rightarrow> file_at (filesys w2) docx_path = file_at (filesys w1) docx_path
              | Inl x \<Rightarrow>
                  file_at (filesys w2) docx_path = file_at (filesys w1) docx_path \<or>
                  (case cut_short e2 Save docx_path of
                     None \<Rightarrow> False
                   | Some n \<Rightarrow>
                       file_at (filesys w2) docx_path =
                         Some (Partial (document_of e1 include_images pdf) n)))"
proof -
  from convert_success_file [OF assms(3)] obtain pdf where op: "fitz_open e1 pdf_path = Inr pdf"
    and f1: "file_at (filesys w1) docx_path = Some (Docx (document_of e1 include_images pdf))"
    by blast
  have op2: "fitz_open e2 pdf_path = Inr pdf" using op assms(1) by simp
  have same: "document_of e2 include_images pdf = document_of e1 include_images pdf"
    using assms(2) by (rule document_of_cong)
  show ?thesis
  proof (cases r2)
    case (Inl x)
    then have "convert_pdf_to_docx e2 pdf_path docx_path include_images w1 = (Inl x, w2)"
      using assms(4) by simp
    from convert_failure_file [OF this] show ?thesis using Inl op op2 f1 same by auto
  next
    case (Inr u)
    then have "convert_pdf_to_docx e2 pdf_path docx_path include_images w1 = (Inr u, w2)"
      using assms(4) by simp
    from convert_success_file [OF this] show ?thesis using Inr op op2 f1 same by auto
  qed
qed

text \<open>
  The witness: the sample run, and the same call again from the state it left, which
  leaves the same document at the destination; and the second call on a full disk, which
  fails and leaves a part of the package of that document.
\<close>

theorem convert_twice_same_content_witness:
  "fst (convert_pdf_to_docx sample_env [ascii ''in'', ascii ''a.pdf'']
      [ascii ''out'', ascii ''a.docx''] True sample_world) = Inr () \<and>
   fst (convert_pdf_to_docx sample_env [ascii ''in'', ascii ''a.pdf'']
      [ascii ''out'', ascii ''a.docx''] True
      (snd (convert_pdf_to_docx sample_env [ascii ''in'', ascii ''a.pdf'']
         [ascii ''out'', ascii ''a.docx''] True sample_world))) = Inr () \<and>
   file_at (filesys (snd (convert_pdf_to_docx sample_env [ascii ''in'', ascii ''a.pdf'']
      [ascii ''out'', ascii ''a.docx''] True
      (snd (convert_pdf_to_docx sample_env [ascii ''in'', ascii ''a.pdf'']
         [ascii ''out'', ascii ''a.docx''] True sample_world)))))
      [ascii ''out'', ascii ''a.docx''] = Some (Docx (sample_document True)) \<and>
   isl (fst (convert_pdf_to_docx full_disk_env [ascii ''in'', ascii ''a.pdf'']
      [ascii ''out'', ascii ''a.docx''] True
      (snd (convert_pdf_to_docx sample_env [ascii ''in'', ascii ''a.pdf'']
         [ascii ''out'', ascii ''a.docx''] True sample_world)))) \<and>
   file_at (filesys (snd (convert_pdf_to_docx full_disk_env [ascii ''in'', ascii ''a.pdf'']
      [ascii ''out'', ascii ''a.docx''] True
      (snd (convert_pdf_to_docx sample_env [ascii ''in'', ascii ''a.pdf'']
         [ascii ''out'', ascii ''a.docx''] True sample_world)))))
      [ascii ''out'', ascii ''a.docx''] = Some (Partial (sample_document True) 100)"
proof -
  let ?after = "[([ascii ''out''], Dir),
      ([ascii ''out'', ascii ''a.docx''], File (Docx (sample_document True)))]"
  let ?torn = "[([ascii ''out''], Dir),
      ([ascii ''out'', ascii ''a.docx''], File (Partial (sample_document True) 100))]"
  have opened: "fitz_open sample_env [ascii ''in'', ascii ''a.pdf''] = Inr [sample_page]"
    by (simp add: sample_env_def)
  have same_parser: "fitz_open full_disk_env = fitz_open sample_env"
    and same_writer: "recognised full_disk_env = recognised sample_env"
    by (simp_all add: full_disk_env_def)
  have cut: "cut_short full_disk_env Save [ascii ''out'', ascii ''a.docx''] = Some 100"
    by (simp add: full_disk_env_def)
  from convert_twice_same_content [OF refl refl sample_run sample_run_again] opened
  have a: "file_at ?after [ascii ''out'', ascii ''a.docx''] = Some (Docx (sample_document True))"
    by (simp add: sample_document_of)
  from convert_twice_same_content [OF same_parser same_writer sample_run
      sample_run_again_full_disk] opened cut
  have b: "file_at ?torn [ascii ''out'', ascii ''a.docx''] =
      Some (Partial (sample_document True) 100)"
    by (auto simp: sample_document_of file_at_def ascii_def)
  show ?thesis
    using a b sample_run sample_run_again sample_run_again_full_disk by simp
qed

text \<open>
  C7. The claim holds where the temporary directory could be made
  (\<open>convert_closes_once_after_mkdir\<close>). It fails on the path on which \<open>mkdir\<close> raises:
  \<open>fitz.open\<close> has returned, \<open>mkdir\<close> stands before the \<open>try\<close>, and the call returns without
  \<open>pdf.close()\<close>. Below, the destination folder \<open>missing\<close> does not exist: one document was
  opened and none was closed.
\<close>

theorem convert_mkdir_failure_leaves_source_open:
  "convert_pdf_to_docx sample_env [ascii ''in'', ascii ''a.pdf'']
     [ascii ''missing'', ascii ''a.docx''] True sample_world =
   (Inl (Exn OSError (ascii ''[Errno 2] No such file or directory: '' @ [39] @
                      ascii ''missing/_tmp_imgs_20240517093015'' @ [39])),
    \<lparr>filesys = [([ascii ''out''], Dir)], ticks = 1, opened = 1, closed = 0\<rparr>)"
  by (simp add: sample_defs run_defs)

text \<open>
  C2 (amended). For every call in which the source was opened and the temporary
  directory was made or found, on the success path and on every failure path of the
  body: before the call returns, the entries inside the temporary directory are
  unlinked and the directory is removed, each as far as the operating system allows.
  A file that is still inside the directory at the return is one whose deletion was
  refused; when no deletion and not the removal is refused and the directory held no
  sub-directory, the directory and everything inside it are gone. An error of the
  cleanup never replaces the result: with any other refusals of \<open>unlink\<close> and \<open>rmdir\<close>
  the call returns the same result.
\<close>

theorem cleanup_is_best_effort:
  assumes "fitz_open e pdf_path = Inr pdf"
    and "with_name docx_path (temp_name (clock e (ticks w))) = Inr temp_dir"
    and "mkdir e temp_dir (filesys w) = Inr fs0"
    and "convert_pdf_to_docx e pdf_path docx_path include_images w = (r, w')"
  shows "(\<forall>q c. inside temp_dir q \<and> map_of (filesys w') q = Some (File c) \<longrightarrow> denied e Unlink q) \<and>
         ((\<forall>q. inside temp_dir q \<longrightarrow> \<not> denied e Unlink q \<and> map_of (filesys w) q \<noteq> Some Dir) \<and>
          \<not> denied e RmDir temp_dir \<longrightarrow>
            map_of (filesys w') temp_dir = None \<and> children (filesys w') temp_dir = []) \<and>
         (\<forall>d. fst (convert_pdf_to_docx (refusing e d) pdf_path docx_path include_images w) = r)"
proof (intro conjI allI impI)
  fix q c
  assume "inside temp_dir q \<and> map_of (filesys w') q = Some (File c)"
  then show "denied e Unlink q"
    using convert_leftover_file [OF assms(4,1,2,3)] by blast
next
  assume a: "(\<forall>q. inside temp_dir q \<longrightarrow> \<not> denied e Unlink q \<and> map_of (filesys w) q \<noteq> Some Dir) \<and>
          \<not> denied e RmDir temp_dir"
  then have f: "\<And>q. inside temp_dir q \<Longrightarrow> \<not> denied e Unlink q \<and> map_of (filesys w) q \<noteq> Some Dir"
    and rm: "\<not> denied e RmDir temp_dir" by blast+
  from convert_removes_temp_dir [OF assms(4,1,2,3) f rm]
  show "map_of (filesys w') temp_dir = None" and "children (filesys w') temp_dir = []"
    by simp_all
next
  fix d
  show "fst (convert_pdf_to_docx (refusing e d) pdf_path docx_path include_images w) = r"
    using assms(4) by (simp add: convert_refusing_result)
qed

text \<open>
  The witness: after the sample run the temporary directory is gone and empty, and the
  run returns the same result when every \<open>unlink\<close> and \<open>rmdir\<close> is refused; in the run in
  which \<open>img_7.png\<close> stays behind, its deletion was refused.
\<close>

theorem cleanup_is_best_effort_witness:
  "map_of (filesys (snd (convert_pdf_to_docx sample_env [ascii ''in'', ascii ''a.pdf'']
      [ascii ''out'', ascii ''a.docx''] True sample_world)))
      [ascii ''out'', ascii ''_tmp_imgs_20240517093015''] = None \<and>
   children (filesys (snd (convert_pdf_to_docx sample_env [ascii ''in'', ascii ''a.pdf'']
      [ascii ''out'', ascii ''a.docx''] True sample_world)))
      [ascii ''out'', ascii ''_tmp_imgs_20240517093015''] = [] \<and>
   fst (convert_pdf_to_docx (refusing sample_env (\<lambda>opn p. True)) [ascii ''in'', ascii ''a.pdf'']
      [ascii ''out'', ascii ''a.docx''] True sample_world) = Inr () \<and>
   file_at (filesys (snd (convert_pdf_to_docx locked_env [ascii ''in'', ascii ''a.pdf'']
      [ascii ''out'', ascii ''a.docx''] True sample_world)))
      [ascii ''out'', ascii ''_tmp_imgs_20240517093015'', ascii ''img_7.png''] =
     Some (Raw [137, 7]) \<and>
   denied locked_env Unlink
      [ascii ''out'', ascii ''_tmp_imgs_20240517093015'', ascii ''img_7.png'']"
proof -
  let ?td = "[ascii ''out'', ascii ''_tmp_imgs_20240517093015'']"
  let ?img = "[ascii ''out'', ascii ''_tmp_imgs_20240517093015'', ascii ''img_7.png'']"
  let ?left = "[([ascii ''out''], Dir), (?td, Dir), (?img, File (Raw [137, 7])),
      ([ascii ''out'', ascii ''a.docx''], File (Docx (sample_document True)))]"
  have opened: "fitz_open sample_env [ascii ''in'', ascii ''a.pdf''] = Inr [sample_page]"
    by (simp add: sample_env_def)
  have allowed: "\<forall>q. inside ?td q \<longrightarrow>
      \<not> denied sample_env Unlink q \<and> map_of (filesys sample_world) q \<noteq> Some Dir"
    by (auto simp: sample_defs inside_def ascii_def)
  have rm: "\<not> denied sample_env RmDir ?td" by (simp add: sample_env_def)
  note fact = cleanup_is_best_effort [OF opened sample_temp_dir sample_mkdir sample_run]
  from fact allowed rm
  have gone: "map_of [([ascii ''out''], Dir),
        ([ascii ''out'', ascii ''a.docx''], File (Docx (sample_document True)))] ?td = None \<and>
      children [([ascii ''out''], Dir),
        ([ascii ''out'', ascii ''a.docx''], File (Docx (sample_document True)))] ?td = []"
    by simp
  from fact
  have same: "fst (convert_pdf_to_docx (refusing sample_env (\<lambda>opn p. True))
      [ascii ''in'', ascii ''a.pdf''] [ascii ''out'', ascii ''a.docx''] True sample_world) = Inr ()"
    by blast
  have left: "map_of ?left ?img = Some (File (Raw [137, 7]))" by (simp add: ascii_def)
  have ins: "inside ?td ?img" by (simp add: inside_def)
  note locked = cleanup_is_best_effort [OF locked_env_setup(1,2,3) sample_run_locked]
  from locked have "\<forall>q c. inside ?td q \<and> map_of ?left q = Some (File c) \<longrightarrow>
      denied locked_env Unlink q"
    by simp
  with left ins have refused: "denied locked_env Unlink ?img" by blast
  have kept: "file_at ?left ?img = Some (Raw [137, 7])" using left by (simp add: file_at_def)
  show ?thesis
    unfolding sample_run sample_run_locked using gone same refused kept by simp
qed

text \<open>
  The claim as it is written fails when a deletion is refused: the sample run in which
  the operating system refuses to unlink \<open>img_7.png\<close> succeeds, and that file and the
  temporary directory are still there when it returns.
\<close>

theorem cleanup_refused_unlink_counterexample:
  "convert_pdf_to_docx locked_env [ascii ''in'', ascii ''a.pdf''] [ascii ''out'', ascii ''a.docx'']
     True sample_world =
   (Inr (),
    \<lparr>filesys = [([ascii ''out''], Dir),
                ([ascii ''out'', ascii ''_tmp_imgs_20240517093015''], Dir),
                ([ascii ''out'', ascii ''_tmp_imgs_20240517093015'', ascii ''img_7.png''],
                 File (Raw [137, 7])),
                ([ascii ''out'', ascii ''a.docx''], File (Docx (sample_document True)))],
     ticks = 1, opened = 1, closed = 1\<rparr>)"
  by (rule sample_run_locked)

text \<open>
  C4 (amended). The pages of a file carry any number of image references, of which
  python-docx rejects any number at insertion (a corrupt or unsupported encoding); every
  other step goes through: the text and the tables of each page reach the document, the
  parser resolves each image reference to bytes, and each temporary file can be written.
  Then the failure of every rejected image is swallowed. The Image Extractor returns
  normally on each page, with the document it was given followed by one block for each
  image reference in order; the page loop returns normally with the document of all
  pages; the pictures in it are the images that are recognised, all of them and in
  order; and the paragraphs that carry text and the tables in it are the text and the
  tables of the pages. Neither a page nor the file is aborted.
\<close>

theorem rejected_image_does_not_abort_page:
  assumes "is_dir fs temp_dir" and "list_all (page_sound e temp_dir fs) pdf"
  shows "(\<exists>fs'. convert_pages e True temp_dir pdf doc fs =
            (None, doc @ document_of e True pdf, fs')) \<and>
         list_all (\<lambda>pg. \<exists>fs'. extract_images e pg doc temp_dir fs =
            (None, doc @ image_blocks e pg (image_refs pg), fs')) pdf \<and>
         filter is_picture (document_of e True pdf) =
           map (\<lambda>b. Picture b picture_width)
             (filter (recognised e) (concat (map (\<lambda>pg. image_bytes pg (image_refs pg)) pdf))) \<and>
         filter text_or_table (document_of e True pdf) = document_of e False pdf"
proof (intro conjI)
  show "\<exists>fs'. convert_pages e True temp_dir pdf doc fs = (None, doc @ document_of e True pdf, fs')"
    using assms by (rule convert_pages_ok)
  have "\<exists>fs'. extract_images e pg doc temp_dir fs =
      (None, doc @ image_blocks e pg (image_refs pg), fs')"
    if "pg \<in> set pdf" for pg
  proof -
    from that assms(2) have "page_sound e temp_dir fs pg" by (simp add: list_all_iff)
    then obtain xrefs where im: "get_images pg = Inr xrefs"
      and tr: "list_all (transferable e pg temp_dir fs) xrefs"
      by (cases "get_images pg") (auto simp: page_sound_def)
    from extract_images_from_ok [OF assms(1) tr, of doc] show ?thesis
      using im by (simp add: extract_images_def image_refs_def)
  qed
  then show "list_all (\<lambda>pg. \<exists>fs'. extract_images e pg doc temp_dir fs =
      (None, doc @ image_blocks e pg (image_refs pg), fs')) pdf"
    by (simp add: list_all_iff)
  show "filter is_picture (document_of e True pdf) =
      map (\<lambda>b. Picture b picture_width)
        (filter (recognised e) (concat (map (\<lambda>pg. image_bytes pg (image_refs pg)) pdf)))"
    by (rule document_of_pictures)
  show "filter text_or_table (document_of e True pdf) = document_of e False pdf"
    by (rule document_of_text_or_table)
qed

text \<open>
  The witness: the sample page, whose second image of three is rejected.
\<close>

theorem rejected_image_does_not_abort_page_witness:
  "(\<exists>fs'. convert_pages sample_env True [ascii ''out'', ascii ''tmp''] [sample_page] []
       [([ascii ''out''], Dir), ([ascii ''out'', ascii ''tmp''], Dir)] =
     (None, sample_document True, fs')) \<and>
   filter is_picture (sample_document True) =
     [Picture [137, 7] picture_width, Picture [137, 9] picture_width] \<and>
   filter text_or_table (sample_document True) = sample_document False"
proof -
  let ?fs = "[([ascii ''out''], Dir), ([ascii ''out'', ascii ''tmp''], Dir)]"
  have c: "is_dir ?fs [ascii ''out'', ascii ''tmp'']" by (simp add: is_dir_def ascii_def)
  have t: "page_text_ok sample_page"
    by (simp add: page_text_ok_def sample_page_def extract_tables_def copy_table_def
        add_table_def set_cell_text_def set_run_text_def xml_char_def is_surrogate_def
        cell_text_def strip_def isspace_def ascii_def)
  have "page_sound sample_env [ascii ''out'', ascii ''tmp''] ?fs sample_page"
    using t
    by (simp add: page_sound_def)
      (simp add: transferable_def sample_defs base_name_def str_nat.simps ascii_def)
  then have d: "list_all (page_sound sample_env [ascii ''out'', ascii ''tmp''] ?fs) [sample_page]"
    by simp
  have bytes: "concat (map (\<lambda>pg. image_bytes pg (image_refs pg)) [sample_page]) =
      [[137, 7], [0, 1], [137, 9]]"
    by (simp add: image_bytes_def image_refs_def sample_page_def)
  note fact = rejected_image_does_not_abort_page [OF c d, of "[]"]
  from fact have 1: "\<exists>fs'. convert_pages sample_env True [ascii ''out'', ascii ''tmp'']
      [sample_page] [] ?fs = (None, sample_document True, fs')"
    by (simp add: sample_document_of)
  from fact have 2: "filter is_picture (sample_document True) =
      map (\<lambda>b. Picture b picture_width) (filter (recognised sample_env) [[137, 7], [0, 1], [137, 9]])"
    unfolding bytes by (simp add: sample_document_of)
  from fact have 3: "filter text_or_table (sample_document True) = sample_document False"
    by (simp add: sample_document_of)
  show ?thesis using 1 2 3 by (simp add: sample_env_def)
qed

text \<open>
  The claim as it is written fails for an image that is corrupt in a way that shows
  before the insertion: resolving the bytes and writing the temporary file stand
  outside the \<open>try\<close>. On the sample source with a second image that the parser cannot
  extract, the Image Extractor raises after the first picture, and the conversion fails
  and writes no file, although the other two images, the text and the table are sound.
\<close>

theorem unextractable_image_aborts_file_counterexample:
  "fst (extract_images broken_env broken_page [] [ascii ''out'', ascii ''tmp'']
      [([ascii ''out''], Dir), ([ascii ''out'', ascii ''tmp''], Dir)]) =
     Some (Exn OtherException ([39] @ ascii ''image'' @ [39])) \<and>
   fst (snd (extract_images broken_env broken_page [] [ascii ''out'', ascii ''tmp'']
      [([ascii ''out''], Dir), ([ascii ''out'', ascii ''tmp''], Dir)])) =
     [Picture [137, 7] picture_width] \<and>
   convert_pdf_to_docx broken_env [ascii ''in'', ascii ''a.pdf'']
     [ascii ''out'', ascii ''a.docx''] True sample_world =
   (Inl (Exn OtherException ([39] @ ascii ''image'' @ [39])),
    \<lparr>filesys = [([ascii ''out''], Dir)], ticks = 1, opened = 1, closed = 1\<rparr>)"
  unfolding sample_run_broken_image
  by (simp add: broken_env_def broken_page_def sample_defs extract_images_def
      extract_one_image_def write_bytes_def write_file_def is_dir_def add_picture_def
      base_name_def str_nat.simps ascii_def Let_def)

text \<open>
  C8 (amended). For every source document, a conversion with \<open>include_images = False\<close>
  that succeeds writes a document with no image block, made of paragraphs that carry
  text and of tables only; and whenever the conversion with \<open>include_images = True\<close> from
  the same state succeeds too, the paragraphs that carry text and the tables of its
  document are the same blocks in the same order.
\<close>

theorem images_flag_only_adds_image_blocks:
  assumes "convert_pdf_to_docx e pdf_path docx_path False w = (Inr (), w_off)"
  shows "\<exists>df. file_at (filesys w_off) docx_path = Some (Docx df) \<and>
           filter is_picture df = [] \<and> filter text_or_table df = df \<and>
           (\<forall>w_on. convert_pdf_to_docx e pdf_path docx_path True w = (Inr (), w_on) \<longrightarrow>
              (\<exists>dt. file_at (filesys w_on) docx_path = Some (Docx dt) \<and>
                 filter text_or_table dt = df))"
proof -
  from convert_success_file [OF assms] obtain pdf where op: "fitz_open e pdf_path = Inr pdf"
    and f: "file_at (filesys w_off) docx_path = Some (Docx (document_of e False pdf))"
    by blast
  have "\<exists>dt. file_at (filesys w_on) docx_path = Some (Docx dt) \<and>
          filter text_or_table dt = document_of e False pdf"
    if t: "convert_pdf_to_docx e pdf_path docx_path True w = (Inr (), w_on)" for w_on
  proof -
    from convert_success_file [OF t] obtain pdf' where "fitz_open e pdf_path = Inr pdf'"
      and "file_at (filesys w_on) docx_path = Some (Docx (document_of e True pdf'))"
      by blast
    then have "file_at (filesys w_on) docx_path = Some (Docx (document_of e True pdf))"
      using op by simp
    then show ?thesis using document_of_text_or_table by blast
  qed
  then show ?thesis
    using f document_of_no_pictures [of e pdf] document_of_text_or_table [of e False pdf]
    by blast
qed

text \<open>The witness: the sample run with and without images.\<close>

theorem images_flag_only_adds_image_blocks_witness:
  "file_at (filesys (snd (convert_pdf_to_docx sample_env [ascii ''in'', ascii ''a.pdf'']
      [ascii ''out'', ascii ''a.docx''] False sample_world))) [ascii ''out'', ascii ''a.docx''] =
     Some (Docx (sample_document False)) \<and>
   filter is_picture (sample_document False) = [] \<and>
   file_at (filesys (snd (convert_pdf_to_docx sample_env [ascii ''in'', ascii ''a.pdf'']
      [ascii ''out'', ascii ''a.docx''] True sample_world))) [ascii ''out'', ascii ''a.docx''] =
     Some (Docx (sample_document True)) \<and>
   filter text_or_table (sample_document True) = sample_document False"
proof -
  from images_flag_only_adds_image_blocks [OF sample_run_without_images]
  obtain df where 1: "file_at [([ascii ''out''], Dir),
        ([ascii ''out'', ascii ''a.docx''], File (Docx (sample_document False)))]
        [ascii ''out'', ascii ''a.docx''] = Some (Docx df)"
    and 2: "filter is_picture df = []"
    and 3: "\<forall>w_on. convert_pdf_to_docx sample_env [ascii ''in'', ascii ''a.pdf'']
        [ascii ''out'', ascii ''a.docx''] True sample_world = (Inr (), w_on) \<longrightarrow>
        (\<exists>dt. file_at (filesys w_on) [ascii ''out'', ascii ''a.docx''] = Some (Docx dt) \<and>
           filter text_or_table dt = df)"
    by auto
  have df: "df = sample_document False" using 1 by (simp add: file_at_def)
  from 3 sample_run obtain dt where 4: "file_at [([ascii ''out''], Dir),
        ([ascii ''out'', ascii ''a.docx''], File (Docx (sample_document True)))]
        [ascii ''out'', ascii ''a.docx''] = Some (Docx dt)"
    and 5: "filter text_or_table dt = df"
    by auto
  have dt: "dt = sample_document True" using 4 by (simp add: file_at_def ascii_def)
  show ?thesis
    unfolding sample_run sample_run_without_images
    using 2 5 df dt by (simp add: file_at_def ascii_def)
qed

text \<open>
  The claim as it is written fails on the sample run: with images the document has one
  paragraph block more than without, the empty paragraph that the rejected second image
  leaves behind.
\<close>

theorem images_flag_stray_paragraph_counterexample:
  "file_at (filesys (snd (convert_pdf_to_docx sample_env [ascii ''in'', ascii ''a.pdf'']
      [ascii ''out'', ascii ''a.docx''] True sample_world))) [ascii ''out'', ascii ''a.docx''] =
     Some (Docx (sample_document True)) \<and>
   file_at (filesys (snd (convert_pdf_to_docx sample_env [ascii ''in'', ascii ''a.pdf'']
      [ascii ''out'', ascii ''a.docx''] False sample_world))) [ascii ''out'', ascii ''a.docx''] =
     Some (Docx (sample_document False)) \<and>
   filter (\<lambda>b. \<not> is_picture b) (sample_document True) =
     sample_document False @ [Paragraph []] \<and>
   filter (\<lambda>b. \<not> is_picture b) (sample_document False) = sample_document False"
  unfolding sample_run sample_run_without_images
  by (simp add: file_at_def ascii_def sample_document_def)

text \<open>
  C5 (amended). The temporary directory of a conversion is the sibling of the
  destination named \<open>_tmp_imgs_\<close> followed by the time of the call printed to the second.
  Two conversions have the same temporary directory exactly when their destinations lie
  in the same folder and their times agree in year, month, day, hour, minute and second;
  so conversions that start in different seconds, or write into different folders,
  never share one. A conversion makes no directory but this one: a directory that is
  there after the call and was not there before is its temporary directory.
\<close>

theorem temp_dir_one_per_folder_and_second:
  assumes "valid_datetime t1" and "valid_datetime t2"
    and "with_name d1 (temp_name t1) = Inr p1" and "with_name d2 (temp_name t2) = Inr p2"
  shows "(p1 = p2) =
           (butlast d1 = butlast d2 \<and> year t1 = year t2 \<and> month t1 = month t2 \<and>
            day t1 = day t2 \<and> hour t1 = hour t2 \<and> minute t1 = minute t2 \<and>
            second t1 = second t2) \<and>
         (\<forall>e pdf_path include_images w r w' q.
            convert_pdf_to_docx e pdf_path d1 include_images w = (r, w') \<and>
            clock e (ticks w) = t1 \<and>
            map_of (filesys w') q = Some Dir \<and> map_of (filesys w) q \<noteq> Some Dir \<longrightarrow> q = p1)"
proof (intro conjI allI impI)
  show "(p1 = p2) =
           (butlast d1 = butlast d2 \<and> year t1 = year t2 \<and> month t1 = month t2 \<and>
            day t1 = day t2 \<and> hour t1 = hour t2 \<and> minute t1 = minute t2 \<and>
            second t1 = second t2)"
    using temp_dir_eq_iff [OF assms(3,4)] strftime_eq_iff [OF assms(1,2)] by simp
next
  fix e pdf_path include_images w r w' q
  assume a: "convert_pdf_to_docx e pdf_path d1 include_images w = (r, w') \<and>
            clock e (ticks w) = t1 \<and>
            map_of (filesys w') q = Some Dir \<and> map_of (filesys w) q \<noteq> Some Dir"
  then have "with_name d1 (temp_name (clock e (ticks w))) = Inr q"
    using convert_new_dir by blast
  then show "q = p1" using a assms(3) by simp
qed

text \<open>
  The witness: two conversions into the same folder one second apart have different
  temporary directories; and in the run in which a file stays behind, the directory that
  is new after the call is the temporary directory of that call.
\<close>

theorem temp_dir_one_per_folder_and_second_witness:
  "with_name [ascii ''out'', ascii ''a.docx''] (temp_name sample_time) =
     Inr [ascii ''out'', ascii ''_tmp_imgs_20240517093015''] \<and>
   with_name [ascii ''out'', ascii ''b.docx''] (temp_name (sample_time\<lparr>second := 16\<rparr>)) =
     Inr [ascii ''out'', ascii ''_tmp_imgs_20240517093016''] \<and>
   [ascii ''out'', ascii ''_tmp_imgs_20240517093015''] \<noteq>
     [ascii ''out'', ascii ''_tmp_imgs_20240517093016''] \<and>
   map_of (filesys (snd (convert_pdf_to_docx locked_env [ascii ''in'', ascii ''a.pdf'']
      [ascii ''out'', ascii ''a.docx''] True sample_world)))
      [ascii ''out'', ascii ''_tmp_imgs_20240517093015''] = Some Dir \<and>
   map_of (filesys sample_world) [ascii ''out'', ascii ''_tmp_imgs_20240517093015''] = None"
proof -
  let ?td = "[ascii ''out'', ascii ''_tmp_imgs_20240517093015'']"
  have v1: "valid_datetime sample_time" by (simp add: valid_datetime_def sample_time_def)
  have v2: "valid_datetime (sample_time\<lparr>second := 16\<rparr>)"
    by (simp add: valid_datetime_def sample_time_def)
  have n1: "with_name [ascii ''out'', ascii ''a.docx''] (temp_name sample_time) = Inr ?td"
    by (simp add: sample_time_def with_name_def temp_name_def strftime_def two_digits_def
        four_digits_def ascii_def)
  have n2: "with_name [ascii ''out'', ascii ''b.docx''] (temp_name (sample_time\<lparr>second := 16\<rparr>)) =
     Inr [ascii ''out'', ascii ''_tmp_imgs_20240517093016'']"
    by (simp add: sample_time_def with_name_def temp_name_def strftime_def two_digits_def
        four_digits_def ascii_def)
  have s: "second sample_time = 15" by (simp add: sample_time_def)
  note fact = temp_dir_one_per_folder_and_second [OF v1 v2 n1 n2]
  have differ: "?td \<noteq> [ascii ''out'', ascii ''_tmp_imgs_20240517093016'']"
    using fact s by simp
  have after: "map_of (filesys (snd (convert_pdf_to_docx locked_env [ascii ''in'', ascii ''a.pdf'']
      [ascii ''out'', ascii ''a.docx''] True sample_world))) ?td = Some Dir"
    unfolding sample_run_locked by (simp add: ascii_def)
  have before: "map_of (filesys sample_world) ?td = None"
    by (simp add: sample_world_def ascii_def)
  show ?thesis using n1 n2 differ after before by simp
qed

text \<open>
  The claim as it is written fails for two conversions that start within the same
  second: two different destination files in the same folder, at two different times
  of the clock, get the same temporary directory. (\<open>mkdir(exist_ok=True)\<close> accepts the
  directory when it is already there.)
\<close>

theorem temp_dir_same_second_counterexample:
  "with_name [ascii ''out'', ascii ''a.docx''] (temp_name (sample_time\<lparr>microsecond := 0\<rparr>)) =
   with_name [ascii ''out'', ascii ''b.docx''] (temp_name (sample_time\<lparr>microsecond := 999999\<rparr>)) \<and>
   sample_time\<lparr>microsecond := 0\<rparr> \<noteq> sample_time\<lparr>microsecond := 999999\<rparr> \<and>
   [ascii ''out'', ascii ''a.docx''] \<noteq> [ascii ''out'', ascii ''b.docx'']"
  by (simp add: sample_time_def with_name_def temp_name_def strftime_def ascii_def)

section \<open>Claims about the Batch Driver\<close>

text \<open>
  C6. For every batch that discovers at least one input file: the window shows the
  starting status, then for each discovered file in order its name with its index and
  the total and, when the Conversion Engine failed on it, an error box with the name of
  the file and the cause; the driver goes on with the next file whatever the outcome,
  so that every discovered file is converted, each on the state the one before left;
  and at the end the status reports the total count of files, the failed ones
  included, followed by the closing message box, with the progress bar at the total.
\<close>

theorem batch_reports_failures_and_goes_on:
  assumes "pdf_paths e (filesys w) (src_dir g) = paths" and "paths \<noteq> []"
  shows "log (fst (convert_all_pdfs e g w)) =
           log g @ [Status (start_status (length paths))] @
           concat (map (file_report (length paths)) (enumerate 1 (batch_results e g w paths))) @
           [Status (done_status (length paths)), Dialog success_info] \<and>
         map fst (batch_results e g w paths) = paths \<and>
         prog_value (fst (convert_all_pdfs e g w)) = length paths"
  using convert_all_pdfs_log [OF assms] batch_results_paths by simp

text \<open>
  The witness: a batch of two files of which the first cannot be opened. Its failure is
  shown with its name and cause, the second file is converted, and the final status
  counts both.
\<close>

theorem batch_reports_failures_and_goes_on_witness:
  "pdf_paths batch_env (filesys batch_world) (src_dir batch_gui) =
     [[ascii ''in'', ascii ''a.pdf''], [ascii ''in'', ascii ''b.pdf'']] \<and>
   log (fst (convert_all_pdfs batch_env batch_gui batch_world)) =
     [Status (ascii ''Convertendo 0/2'' @ [8230]),
      Status (ascii ''a.pdf (1/2)''),
      Dialog (ShowError (ascii ''Erro'') (ascii ''Falha ao converter a.pdf: cannot open'')),
      Status (ascii ''b.pdf (2/2)''),
      Status (ascii ''Conclu'' @ [237] @ ascii ''do! 2 arquivo(s) convertidos.''),
      Dialog success_info]"
proof -
  have ne: "[[ascii ''in'', ascii ''a.pdf''], [ascii ''in'', ascii ''b.pdf'']] \<noteq> []" by simp
  have l: "log batch_gui = []" by (simp add: batch_gui_def)
  note shown = batch_reports_failures_and_goes_on [OF batch_paths ne, unfolded batch_outcomes l]
  have "log (fst (convert_all_pdfs batch_env batch_gui batch_world)) =
     [Status (ascii ''Convertendo 0/2'' @ [8230]),
      Status (ascii ''a.pdf (1/2)''),
      Dialog (ShowError (ascii ''Erro'') (ascii ''Falha ao converter a.pdf: cannot open'')),
      Status (ascii ''b.pdf (2/2)''),
      Status (ascii ''Conclu'' @ [237] @ ascii ''do! 2 arquivo(s) convertidos.''),
      Dialog success_info]"
    using shown
    by (simp add: file_report_def file_status_def failure_message_def
        start_status_def done_status_def str_nat.simps ascii_def)
  then show ?thesis using batch_paths by simp
qed

text \<open>
  C10 (amended). Where \<open>pathlib\<close> matches names case-sensitively (the POSIX flavour),
  the files the driver discovers in a folder are exactly its entries whose name ends in
  the lowercase \<open>.pdf\<close>, sorted and each once; \<open>REPORT.PDF\<close> is not among them, so it is
  neither converted nor counted: the batch converts the discovered paths and its total
  is their number (\<open>convert_all_pdfs\<close>).
\<close>

theorem glob_is_case_sensitive_on_posix:
  assumes "windows e = False"
  shows "set (pdf_paths e fs d) =
           {p. inside d p \<and> map_of fs p \<noteq> None \<and> (\<exists>s. last p = s @ ascii ''.pdf'')} \<and>
         sorted (pdf_paths e fs d) \<and> distinct (pdf_paths e fs d) \<and>
         d @ [ascii ''REPORT.PDF''] \<notin> set (pdf_paths e fs d)"
proof -
  have "\<not> (\<exists>s. ascii ''REPORT.PDF'' = s @ ascii ''.pdf'')"
    using matches_pdf_exact [of "ascii ''REPORT.PDF''"]
    by (simp add: matches_pdf_def ascii_def)
  then have "d @ [ascii ''REPORT.PDF''] \<notin> set (pdf_paths e fs d)"
    using pdf_paths_posix(1) [OF assms, of fs d] by simp
  then show ?thesis using pdf_paths_posix [OF assms, of fs d] by simp
qed

text \<open>The witness: the sample folder, which holds \<open>REPORT.PDF\<close> beside two matching files.\<close>

theorem glob_is_case_sensitive_on_posix_witness:
  "windows batch_env = False \<and>
   pdf_paths batch_env (filesys batch_world) [ascii ''in''] =
     [[ascii ''in'', ascii ''a.pdf''], [ascii ''in'', ascii ''b.pdf'']] \<and>
   [ascii ''in''] @ [ascii ''REPORT.PDF''] \<notin>
     set (pdf_paths batch_env (filesys batch_world) [ascii ''in''])"
proof -
  have p: "windows batch_env = False" by (simp add: batch_env_def sample_env_def)
  have s: "src_dir batch_gui = [ascii ''in'']" by (simp add: batch_gui_def)
  from glob_is_case_sensitive_on_posix [OF p, of "filesys batch_world" "[ascii ''in'']"]
  have n: "[ascii ''in''] @ [ascii ''REPORT.PDF''] \<notin>
      set (pdf_paths batch_env (filesys batch_world) [ascii ''in''])"
    by blast
  have "pdf_paths batch_env (filesys batch_world) [ascii ''in''] =
     [[ascii ''in'', ascii ''a.pdf''], [ascii ''in'', ascii ''b.pdf'']]"
    using batch_paths s by simp
  then show ?thesis using p n by blast
qed

text \<open>
  The claim as it is written, for every source folder, fails on the Windows flavour of
  \<open>pathlib\<close>, where \<open>glob\<close> ignores case: \<open>REPORT.PDF\<close> in the same folder is discovered,
  and the batch has three files.
\<close>

theorem glob_ignores_case_on_windows_counterexample:
  "pdf_paths (batch_env\<lparr>windows := True, str_lower := map ascii_lower\<rparr>)
     (filesys batch_world) [ascii ''in''] =
   [[ascii ''in'', ascii ''a.pdf''], [ascii ''in'', ascii ''b.pdf''],
    [ascii ''in'', ascii ''REPORT.PDF'']]"
  by (simp add: batch_defs sample_env_def pdf_paths_def glob_pdf_def children_def
      matches_pdf_def path_key_def ascii_lower_def ascii_def Let_def)

end
